theory Spec2Isabelle
  imports Complex_Main "HOL-Library.Word" "HOL-Library.FSet"
begin

section \<open>JavaScript strings\<close>

text \<open>
  Strings are modelled as \<open>string\<close> (lists of 8-bit characters); the labels, identifiers and
  error messages of the program are ASCII.  \<open>startsWith\<close> and \<open>includes_str\<close> are
  \<^verbatim>\<open>String.prototype.startsWith\<close> and \<^verbatim>\<open>String.prototype.includes\<close>.
\<close>

fun startsWith :: "string \<Rightarrow> string \<Rightarrow> bool" where
  "startsWith s [] = True"
| "startsWith [] (c # t) = False"
| "startsWith (d # s) (c # t) = (d = c \<and> startsWith s t)"

fun includes_str :: "string \<Rightarrow> string \<Rightarrow> bool" where
  "includes_str [] t = startsWith [] t"
| "includes_str (d # s) t = (startsWith (d # s) t \<or> includes_str s t)"

definition upper_letters :: string where
  "upper_letters = ''ABCDEFGHIJKLMNOPQRSTUVWXYZ''"

definition lower_letters :: string where
  "lower_letters = ''abcdefghijklmnopqrstuvwxyz''"

definition toUpperCase_char :: "char \<Rightarrow> char" where
  "toUpperCase_char c =
     (case map_of (zip lower_letters upper_letters) c of None \<Rightarrow> c | Some d \<Rightarrow> d)"

definition toLowerCase_char :: "char \<Rightarrow> char" where
  "toLowerCase_char c =
     (case map_of (zip upper_letters lower_letters) c of None \<Rightarrow> c | Some d \<Rightarrow> d)"

definition toLowerCase :: "string \<Rightarrow> string" where
  "toLowerCase s = map toLowerCase_char s"

text \<open>The decimal rendering of a non-negative integer inside a template literal.\<close>

definition digit :: "nat \<Rightarrow> char" where
  "digit d = ''0123456789'' ! (d mod 10)"

fun decimal :: "nat \<Rightarrow> string" where
  "decimal n = (if n < 10 then [digit n] else decimal (n div 10) @ [digit n])"

declare decimal.simps [simp del]

section \<open>JavaScript numbers\<close>

text \<open>
  A JavaScript number is an IEEE 754 binary64 value.  A finite value is \<open>Fin m e\<close>, the number
  \<open>m * 2\<^sup>e\<close>, kept with \<open>m\<close> odd (or \<open>m = 0\<close> and \<open>e = 0\<close>) so that equal numbers are equal
  terms.  The two zeros are identified; no modelled expression divides by a negative zero.
\<close>

datatype jsnum = NaN | PosInf | NegInf | Fin int int

fun bitlen_nat :: "nat \<Rightarrow> nat" where
  "bitlen_nat n = (if n = 0 then 0 else Suc (bitlen_nat (n div 2)))"

declare bitlen_nat.simps [simp del]

text \<open>\<open>floor_log2 n d\<close> is \<open>\<lfloor>log\<^sub>2 (n / d)\<rfloor>\<close> for positive \<open>n\<close> and \<open>d\<close>.\<close>

definition floor_log2 :: "nat \<Rightarrow> nat \<Rightarrow> int" where
  "floor_log2 n d =
     (let k = int (bitlen_nat n) - int (bitlen_nat d)
      in if (if 0 \<le> k then d * 2 ^ nat k \<le> n else d \<le> n * 2 ^ nat (- k)) then k else k - 1)"

text \<open>\<open>n / d\<close> rounded to the nearest integer, ties to even.\<close>

definition round_half_even :: "nat \<Rightarrow> nat \<Rightarrow> nat" where
  "round_half_even n d =
     (let q = n div d; r = n mod d
      in if 2 * r < d then q else if d < 2 * r then q + 1 else if even q then q else q + 1)"

fun normal :: "nat \<Rightarrow> int \<Rightarrow> jsnum" where
  "normal m e =
     (if m = 0 then Fin 0 0 else if even m then normal (m div 2) (e + 1) else Fin (int m) e)"

declare normal.simps [simp del]

text \<open>
  \<open>fl_pos n d\<close> is the binary64 value nearest to the positive rational \<open>n / d\<close>: 53 significant
  bits above \<open>2\<^sup>-\<^sup>1\<^sup>0\<^sup>2\<^sup>2\<close>, the fixed exponent \<open>-1074\<close> below (gradual underflow), an infinity when
  the rounded value reaches \<open>2\<^sup>1\<^sup>0\<^sup>2\<^sup>4\<close>.  The rounded significand \<open>m\<close> is at most \<open>2\<^sup>5\<^sup>3\<close>, so
  that happens only for \<open>e \<ge> 971\<close>.
\<close>

definition fl_pos :: "nat \<Rightarrow> nat \<Rightarrow> jsnum" where
  "fl_pos n d =
     (let e = max (floor_log2 n d - 52) (- 1074);
          m = (if 0 \<le> e then round_half_even n (d * 2 ^ nat e)
               else round_half_even (n * 2 ^ nat (- e)) d)
      in if (if 971 \<le> e then 2 ^ nat (1024 - e) \<le> m else False) then PosInf else normal m e)"

fun jneg :: "jsnum \<Rightarrow> jsnum" where
  "jneg NaN = NaN"
| "jneg PosInf = NegInf"
| "jneg NegInf = PosInf"
| "jneg (Fin m e) = Fin (- m) e"

text \<open>\<open>fl n d\<close> rounds the rational \<open>n / d\<close>, \<open>d\<close> positive.\<close>

definition fl :: "int \<Rightarrow> nat \<Rightarrow> jsnum" where
  "fl n d =
     (if n = 0 then Fin 0 0 else if 0 < n then fl_pos (nat n) d else jneg (fl_pos (nat (- n)) d))"

definition num :: "int \<Rightarrow> jsnum" where
  "num i = fl i 1"

text \<open>Numerator and denominator of \<open>m * 2\<^sup>e\<close>.\<close>

definition numer :: "int \<Rightarrow> int \<Rightarrow> int" where
  "numer m e = (if 0 \<le> e then m * 2 ^ nat e else m)"

definition denom :: "int \<Rightarrow> nat" where
  "denom e = (if 0 \<le> e then 1 else 2 ^ nat (- e))"

fun jadd :: "jsnum \<Rightarrow> jsnum \<Rightarrow> jsnum" where
  "jadd (Fin a ea) (Fin b eb) =
     fl (numer a ea * int (denom eb) + numer b eb * int (denom ea)) (denom ea * denom eb)"
| "jadd NaN y = NaN"
| "jadd x NaN = NaN"
| "jadd PosInf NegInf = NaN"
| "jadd NegInf PosInf = NaN"
| "jadd PosInf y = PosInf"
| "jadd NegInf y = NegInf"
| "jadd x PosInf = PosInf"
| "jadd x NegInf = NegInf"

definition jsub :: "jsnum \<Rightarrow> jsnum \<Rightarrow> jsnum" where
  "jsub x y = jadd x (jneg y)"

definition signed_inf :: "bool \<Rightarrow> jsnum" where
  "signed_inf positive = (if positive then PosInf else NegInf)"

fun jmul :: "jsnum \<Rightarrow> jsnum \<Rightarrow> jsnum" where
  "jmul (Fin a ea) (Fin b eb) = fl (numer a ea * numer b eb) (denom ea * denom eb)"
| "jmul NaN y = NaN"
| "jmul x NaN = NaN"
| "jmul PosInf (Fin b eb) = (if b = 0 then NaN else signed_inf (0 < b))"
| "jmul NegInf (Fin b eb) = (if b = 0 then NaN else signed_inf (b < 0))"
| "jmul (Fin a ea) PosInf = (if a = 0 then NaN else signed_inf (0 < a))"
| "jmul (Fin a ea) NegInf = (if a = 0 then NaN else signed_inf (a < 0))"
| "jmul PosInf PosInf = PosInf"
| "jmul PosInf NegInf = NegInf"
| "jmul NegInf PosInf = NegInf"
| "jmul NegInf NegInf = PosInf"

fun jdiv :: "jsnum \<Rightarrow> jsnum \<Rightarrow> jsnum" where
  "jdiv (Fin a ea) (Fin b eb) =
     (if b = 0 then (if a = 0 then NaN else signed_inf (0 < a))
      else fl (sgn b * numer a ea * int (denom eb)) (denom ea * nat \<bar>numer b eb\<bar>))"
| "jdiv NaN y = NaN"
| "jdiv x NaN = NaN"
| "jdiv (Fin a ea) PosInf = Fin 0 0"
| "jdiv (Fin a ea) NegInf = Fin 0 0"
| "jdiv PosInf (Fin b eb) = signed_inf (0 \<le> b)"
| "jdiv NegInf (Fin b eb) = signed_inf (b < 0)"
| "jdiv PosInf PosInf = NaN"
| "jdiv PosInf NegInf = NaN"
| "jdiv NegInf PosInf = NaN"
| "jdiv NegInf NegInf = NaN"

text \<open>\<^verbatim>\<open>Math.floor\<close>, the comparison \<^verbatim>\<open><\<close> (false when an operand is NaN) and \<^verbatim>\<open>Math.min\<close>.\<close>

fun jfloor :: "jsnum \<Rightarrow> jsnum" where
  "jfloor (Fin m e) = fl (numer m e div int (denom e)) 1"
| "jfloor x = x"

fun jless :: "jsnum \<Rightarrow> jsnum \<Rightarrow> bool" where
  "jless (Fin a ea) (Fin b eb) = (numer a ea * int (denom eb) < numer b eb * int (denom ea))"
| "jless NaN y = False"
| "jless x NaN = False"
| "jless PosInf y = False"
| "jless NegInf y = (y \<noteq> NegInf)"
| "jless (Fin a ea) PosInf = True"
| "jless (Fin a ea) NegInf = False"

definition jmin :: "jsnum \<Rightarrow> jsnum \<Rightarrow> jsnum" where
  "jmin x y = (if x = NaN \<or> y = NaN then NaN else if jless y x then y else x)"

text \<open>The comparison \<^verbatim>\<open><=\<close>.\<close>

definition jle :: "jsnum \<Rightarrow> jsnum \<Rightarrow> bool" where
  "jle x y \<longleftrightarrow> jless x y \<or> (x = y \<and> x \<noteq> NaN)"

text \<open>
  \<^verbatim>\<open>Math.exp\<close> is implementation-approximated on finite arguments: \<open>ex\<close> gives the value the
  engine returns there.  On the other arguments ECMAScript fixes the result.
\<close>

fun js_exp :: "(int \<Rightarrow> int \<Rightarrow> jsnum) \<Rightarrow> jsnum \<Rightarrow> jsnum" where
  "js_exp ex NaN = NaN"
| "js_exp ex PosInf = PosInf"
| "js_exp ex NegInf = Fin 0 0"
| "js_exp ex (Fin m e) = ex m e"

text \<open>
  \<^verbatim>\<open>Math.round\<close>: the nearest integer, a tie going upwards.  \<^verbatim>\<open>Math.cos\<close> and \<^verbatim>\<open>Math.sin\<close> are
  implementation-approximated on finite arguments, as \<^verbatim>\<open>Math.exp\<close> is, and NaN on the others.
  \<^verbatim>\<open>Math.PI\<close> is the binary64 value nearest to \<open>\<pi>\<close>.
\<close>

fun jround :: "jsnum \<Rightarrow> jsnum" where
  "jround (Fin m e) = fl ((2 * numer m e + int (denom e)) div (2 * int (denom e))) 1"
| "jround x = x"

fun js_trig :: "(int \<Rightarrow> int \<Rightarrow> jsnum) \<Rightarrow> jsnum \<Rightarrow> jsnum" where
  "js_trig f (Fin m e) = f m e"
| "js_trig f x = NaN"

definition Math_PI :: jsnum where
  "Math_PI = Fin 884279719003555 (- 48)"

text \<open>
  An array index: the number must be a non-negative integer.  Any other property name read
  from a typed array gives \<^verbatim>\<open>undefined\<close>.
\<close>

fun index_of :: "jsnum \<Rightarrow> nat option" where
  "index_of (Fin m e) = (if 0 \<le> m \<and> 0 \<le> e then Some (nat m * 2 ^ nat e) else None)"
| "index_of x = None"

section \<open>Pixel buffers\<close>

text \<open>
  \<^verbatim>\<open>ImageData\<close>: \<open>data\<close> is a \<^verbatim>\<open>Uint8ClampedArray\<close> of RGBA bytes, four per pixel, rows first.
  The browser only hands out buffers with positive dimensions and \<open>4 * width * height\<close> bytes
  (\<open>wf_image\<close>).  A typed array read outside the buffer gives \<^verbatim>\<open>undefined\<close> (\<open>None\<close>); a write
  outside the buffer is ignored, as \<open>xs[i := v]\<close> is.
\<close>

type_synonym u8 = "8 word"

record imageData =
  width :: nat
  height :: nat
  data :: "u8 list"

definition wf_image :: "imageData \<Rightarrow> bool" where
  "wf_image img \<longleftrightarrow>
     0 < width img \<and> 0 < height img \<and> length (data img) = 4 * width img * height img"

definition byte_at :: "u8 list \<Rightarrow> nat \<Rightarrow> u8 option" where
  "byte_at xs i = (if i < length xs then Some (xs ! i) else None)"

text \<open>\<^verbatim>\<open>data[i] > t\<close> and \<^verbatim>\<open>data[i] < t\<close>: a comparison with \<^verbatim>\<open>undefined\<close> is false.\<close>

definition exceeds :: "u8 option \<Rightarrow> u8 \<Rightarrow> bool" where
  "exceeds v t = (case v of None \<Rightarrow> False | Some b \<Rightarrow> t < b)"

definition below :: "u8 option \<Rightarrow> u8 \<Rightarrow> bool" where
  "below v t = (case v of None \<Rightarrow> False | Some b \<Rightarrow> b < t)"

text \<open>\<^verbatim>\<open>new ImageData(width, height)\<close>: transparent black.\<close>

definition new_ImageData :: "nat \<Rightarrow> nat \<Rightarrow> imageData" where
  "new_ImageData w h = \<lparr>width = w, height = h, data = replicate (4 * w * h) 0\<rparr>"

text \<open>The four channels of the pixel whose first byte is at \<open>idx\<close>.\<close>

definition put4 :: "u8 list \<Rightarrow> nat \<Rightarrow> u8 \<times> u8 \<times> u8 \<times> u8 \<Rightarrow> u8 list" where
  "put4 xs idx p =
     (case p of (r, g, b, a) \<Rightarrow> xs[idx := r, idx + 1 := g, idx + 2 := b, idx + 3 := a])"

text \<open>
  The pixels in the order of \<^verbatim>\<open>for (y ...) for (x ...)\<close>, as pairs \<open>(x, y)\<close>, and the byte
  offsets visited by \<^verbatim>\<open>for (i = start; i < n; i += 4)\<close>.
\<close>

definition pixels :: "nat \<Rightarrow> nat \<Rightarrow> (nat \<times> nat) list" where
  "pixels w h = concat (map (\<lambda>y. map (\<lambda>x. (x, y)) [0..<w]) [0..<h])"

definition by4 :: "nat \<Rightarrow> nat \<Rightarrow> nat list" where
  "by4 start n = map (\<lambda>k. start + 4 * k) [0..<(n + 3 - start) div 4]"

text \<open>
  Channel \<open>c\<close> (0 red, 1 green, 2 blue, 3 alpha) of pixel \<open>(x, y)\<close>, and the 3 by 3 neighbourhood of
  a pixel within the bounds of a \<open>w\<close> by \<open>h\<close> image.
\<close>

definition channel :: "imageData \<Rightarrow> nat \<Rightarrow> nat \<Rightarrow> nat \<Rightarrow> u8" where
  "channel img x y c = data img ! ((y * width img + x) * 4 + c)"

definition around :: "nat \<Rightarrow> nat \<Rightarrow> nat \<Rightarrow> nat \<Rightarrow> (nat \<times> nat) set" where
  "around w h x y =
     {(nx, ny). nx < w \<and> ny < h \<and> int nx - int x \<in> {- 1, 0, 1} \<and> int ny - int y \<in> {- 1, 0, 1}}"

subsection \<open>\<open>dilateMask\<close>\<close>

text \<open>
  \<^verbatim>\<open>Math.max(maxValue, current.data[nIdx])\<close>: \<open>None\<close> is NaN, which a read of \<^verbatim>\<open>undefined\<close>
  produces and every later maximum keeps; stored into the byte array it becomes 0.
\<close>

definition max_byte :: "u8 option \<Rightarrow> u8 option \<Rightarrow> u8 option" where
  "max_byte m v = (case (m, v) of (Some a, Some b) \<Rightarrow> Some (max a b) | _ \<Rightarrow> None)"

definition store_byte :: "u8 option \<Rightarrow> u8" where
  "store_byte m = (case m of None \<Rightarrow> 0 | Some b \<Rightarrow> b)"

definition neighbourhood :: "nat \<Rightarrow> nat \<Rightarrow> nat \<Rightarrow> nat \<Rightarrow> (nat \<times> nat) list" where
  "neighbourhood w h x y =
     concat (map (\<lambda>dy. concat (map (\<lambda>dx.
       (let nx = int x + dx; ny = int y + dy
        in if 0 \<le> nx \<and> nx < int w \<and> 0 \<le> ny \<and> ny < int h then [(nat nx, nat ny)] else []))
       [- 1, 0, 1])) [- 1, 0, 1])"

definition maxValue :: "imageData \<Rightarrow> nat \<Rightarrow> nat \<Rightarrow> u8 option" where
  "maxValue current x y =
     fold (\<lambda>(nx, ny) m. max_byte m (byte_at (data current) ((ny * width current + nx) * 4)))
       (neighbourhood (width current) (height current) x y) (Some 0)"

definition dilate_pixel :: "imageData \<Rightarrow> nat \<times> nat \<Rightarrow> u8 list \<Rightarrow> u8 list" where
  "dilate_pixel current p out =
     (case p of (x, y) \<Rightarrow>
        (let idx = (y * width current + x) * 4; m = store_byte (maxValue current x y)
         in put4 out idx (m, m, m, 255)))"

definition dilate_step :: "imageData \<Rightarrow> imageData" where
  "dilate_step current =
     (let output = new_ImageData (width current) (height current)
      in output\<lparr>data := fold (dilate_pixel current)
                            (pixels (width current) (height current)) (data output)\<rparr>)"

fun dilate_loop :: "nat \<Rightarrow> imageData \<Rightarrow> imageData" where
  "dilate_loop 0 current = current"
| "dilate_loop (Suc n) current = dilate_loop n (dilate_step current)"

text \<open>
  \<open>dilateMask\<close>: \<open>iterations\<close> is an integer (the slider has step 1); the loop
  \<^verbatim>\<open>for (iter = 0; iter < iterations; iter++)\<close> runs \<open>nat iterations\<close> times.
\<close>

definition dilateMask :: "imageData \<Rightarrow> int \<Rightarrow> imageData" where
  "dilateMask imageData iterations =
     dilate_loop (nat iterations)
       \<lparr>width = width imageData, height = height imageData, data = data imageData\<rparr>"

subsection \<open>\<open>applyGaussianBlur\<close>\<close>

text \<open>A byte read as a number (\<^verbatim>\<open>undefined\<close> in arithmetic is NaN), and a number stored into a
  \<^verbatim>\<open>Uint8ClampedArray\<close>: NaN becomes 0, the rest is clamped to \<open>0..255\<close> and rounded, ties to even.\<close>

definition num_at :: "u8 list \<Rightarrow> int \<Rightarrow> jsnum" where
  "num_at xs i =
     (if 0 \<le> i \<and> i < int (length xs) then num (uint (xs ! nat i)) else NaN)"

fun toUint8Clamp :: "jsnum \<Rightarrow> u8" where
  "toUint8Clamp NaN = 0"
| "toUint8Clamp PosInf = 255"
| "toUint8Clamp NegInf = 0"
| "toUint8Clamp (Fin m e) =
     (if numer m e \<le> 0 then 0
      else if 255 * int (denom e) \<le> numer m e then 255
      else of_nat (round_half_even (nat (numer m e)) (denom e)))"

text \<open>\<^verbatim>\<open>kernel[i]\<close>: outside the array the read is \<^verbatim>\<open>undefined\<close>, NaN as a weight.\<close>

definition weight_at :: "jsnum list \<Rightarrow> int \<Rightarrow> jsnum" where
  "weight_at weights i =
     (if 0 \<le> i \<and> i < int (length weights) then weights ! nat i else NaN)"

definition gauss :: "(int \<Rightarrow> int \<Rightarrow> jsnum) \<Rightarrow> jsnum \<Rightarrow> int \<Rightarrow> jsnum" where
  "gauss ex sigma x =
     js_exp ex (jdiv (jneg (jmul (num x) (num x))) (jmul (jmul (num 2) sigma) sigma))"

definition make_kernel :: "(int \<Rightarrow> int \<Rightarrow> jsnum) \<Rightarrow> int \<Rightarrow> jsnum list" where
  "make_kernel ex radius =
     (let sigma = jdiv (num radius) (num 3);
          weights = map (gauss ex sigma) [- radius..radius];
          kernelSum = fold (\<lambda>v s. jadd s v) weights (num 0)
      in map (\<lambda>v. jdiv v kernelSum) weights)"

text \<open>
  One output pixel of a pass: the weighted sums over the taps \<open>k = -radius..radius\<close>, read at
  the offset \<open>src k\<close> of the source buffer.
\<close>

definition convolve :: "jsnum list \<Rightarrow> int \<Rightarrow> u8 list \<Rightarrow> (int \<Rightarrow> int) \<Rightarrow> u8 \<times> u8 \<times> u8 \<times> u8" where
  "convolve weights radius src idx =
     (let acc = fold (\<lambda>k (r, g, b, a).
                  (let w = weight_at weights (k + radius)
                   in (jadd r (jmul (num_at src (idx k)) w),
                       jadd g (jmul (num_at src (idx k + 1)) w),
                       jadd b (jmul (num_at src (idx k + 2)) w),
                       jadd a (jmul (num_at src (idx k + 3)) w))))
                [- radius..radius] (num 0, num 0, num 0, num 0)
      in case acc of (r, g, b, a) \<Rightarrow>
           (toUint8Clamp r, toUint8Clamp g, toUint8Clamp b, toUint8Clamp a))"

definition clamp_coord :: "int \<Rightarrow> nat \<Rightarrow> int" where
  "clamp_coord v n = min (max v 0) (int n - 1)"

definition applyGaussianBlur :: "(int \<Rightarrow> int \<Rightarrow> jsnum) \<Rightarrow> imageData \<Rightarrow> int \<Rightarrow> imageData" where
  "applyGaussianBlur ex imageData radius =
     (let w = width imageData; h = height imageData;
          output = new_ImageData w h;
          weights = make_kernel ex radius;
          temp = fold (\<lambda>(x, y) t.
                   put4 t ((y * w + x) * 4)
                     (convolve weights radius (data imageData)
                        (\<lambda>kx. (int y * int w + clamp_coord (int x + kx) w) * 4)))
                   (pixels w h) (replicate (length (data imageData)) 0)
      in output\<lparr>data := fold (\<lambda>(x, y) out.
                   put4 out ((y * w + x) * 4)
                     (convolve weights radius temp
                        (\<lambda>ky. (clamp_coord (int y + ky) h * int w + int x) * 4)))
                   (pixels w h) (data output)\<rparr>)"

subsection \<open>\<open>createImprovedMask\<close>\<close>

definition binary_mask :: "imageData \<Rightarrow> imageData" where
  "binary_mask imageData =
     (let maskData = new_ImageData (width imageData) (height imageData)
      in maskData\<lparr>data := fold (\<lambda>i m.
                   (if below (byte_at (data imageData) (i + 3)) 200
                    then put4 m i (255, 255, 255, 255) else put4 m i (0, 0, 0, 255)))
                   (by4 0 (length (data imageData))) (data maskData)\<rparr>)"

definition createImprovedMask ::
  "(int \<Rightarrow> int \<Rightarrow> jsnum) \<Rightarrow> imageData \<Rightarrow> int \<Rightarrow> int \<Rightarrow> imageData" where
  "createImprovedMask ex imageData featherRadius expandPixels =
     (let maskData = binary_mask imageData;
          processedMask = (if 0 < expandPixels then dilateMask maskData expandPixels else maskData)
      in if 0 < featherRadius then applyGaussianBlur ex processedMask featherRadius
         else processedMask)"

subsection \<open>The pixel pass of \<open>localContentAwareFill\<close>\<close>

text \<open>\<^verbatim>\<open>data[i] >= t\<close>, false for \<^verbatim>\<open>undefined\<close>.\<close>

definition reaches :: "u8 option \<Rightarrow> u8 \<Rightarrow> bool" where
  "reaches v t = (case v of None \<Rightarrow> False | Some b \<Rightarrow> t \<le> b)"

text \<open>First pass: the byte offsets of the pixels with alpha below 200, in scan order.\<close>

definition transparentPixels :: "imageData \<Rightarrow> nat list" where
  "transparentPixels img =
     concat (map (\<lambda>(x, y).
       (let idx = (y * width img + x) * 4
        in if below (byte_at (data img) (idx + 3)) 200 then [idx] else []))
       (pixels (width img) (height img)))"

text \<open>
  Sample \<open>i\<close> of the eight on the circle of the given radius around \<open>(x, y)\<close>: the colour found
  there when the rounded position is inside the image and its alpha is at least 200.  The
  rounded coordinates are integers, infinite or NaN, so the bounds test \<^verbatim>\<open>sampleX >= 0\<close> holds
  exactly when \<open>index_of\<close> gives an index; the colour bytes are read below an alpha byte that was
  inside the buffer.
\<close>

definition ring_sample ::
  "(int \<Rightarrow> int \<Rightarrow> jsnum) \<Rightarrow> (int \<Rightarrow> int \<Rightarrow> jsnum) \<Rightarrow> imageData \<Rightarrow> nat \<Rightarrow> nat \<Rightarrow> int \<Rightarrow> int \<Rightarrow>
     (u8 \<times> u8 \<times> u8) list" where
  "ring_sample co si img x y radius i =
     (let angle = jdiv (jmul (jmul Math_PI (num 2)) (num i)) (num 8);
          sampleX = jround (jadd (num (int x)) (jmul (js_trig co angle) (num radius)));
          sampleY = jround (jadd (num (int y)) (jmul (js_trig si angle) (num radius)))
      in case (index_of sampleX, index_of sampleY) of
           (Some sx, Some sy) \<Rightarrow>
             if sx < width img \<and> sy < height img then
               (let sampleIdx = (sy * width img + sx) * 4
                in if reaches (byte_at (data img) (sampleIdx + 3)) 200
                   then [(data img ! sampleIdx, data img ! (sampleIdx + 1),
                          data img ! (sampleIdx + 2))]
                   else [])
             else []
         | _ \<Rightarrow> [])"

text \<open>
  The rings of one transparent pixel, radius 3 to 10, appended to the colours collected so
  far; the loop over the radii is left once more than 50 colours are held.
\<close>

fun sample_rings ::
  "(int \<Rightarrow> (u8 \<times> u8 \<times> u8) list) \<Rightarrow> int list \<Rightarrow> (u8 \<times> u8 \<times> u8) list \<Rightarrow> (u8 \<times> u8 \<times> u8) list" where
  "sample_rings ring [] collected = collected"
| "sample_rings ring (radius # radii) collected =
     (let found = collected @ ring radius
      in if 50 < length found then found else sample_rings ring radii found)"

definition surroundingColors ::
  "(int \<Rightarrow> int \<Rightarrow> jsnum) \<Rightarrow> (int \<Rightarrow> int \<Rightarrow> jsnum) \<Rightarrow> imageData \<Rightarrow> nat list \<Rightarrow> (u8 \<times> u8 \<times> u8) list" where
  "surroundingColors co si img transparent =
     fold (\<lambda>idx found.
       (let x = (idx div 4) mod width img; y = (idx div 4) div width img
        in sample_rings (\<lambda>radius. concat (map (ring_sample co si img x y radius) [0..7]))
             [3..10] found))
       transparent []"

text \<open>The rounded mean of a channel, as it lands in the byte array.\<close>

definition average :: "u8 list \<Rightarrow> u8" where
  "average cs =
     toUint8Clamp (jround (jdiv (fold (\<lambda>c sum. jadd sum (num (uint c))) cs (num 0))
                                (num (int (length cs)))))"

text \<open>
  The filled pixels: every transparent pixel gets the mean colour of the samples, white when
  there is no sample, and full opacity.  \<open>None\<close> when no pixel is transparent.
\<close>

definition fill_transparent ::
  "(int \<Rightarrow> int \<Rightarrow> jsnum) \<Rightarrow> (int \<Rightarrow> int \<Rightarrow> jsnum) \<Rightarrow> imageData \<Rightarrow> imageData option" where
  "fill_transparent co si img =
     (let transparent = transparentPixels img
      in if transparent = [] then None
         else
           (let found = surroundingColors co si img transparent;
                colour = (if found = [] then (255, 255, 255, 255)
                          else (average (map fst found), average (map (fst \<circ> snd) found),
                                average (map (snd \<circ> snd) found), 255))
            in Some (img\<lparr>data := fold (\<lambda>idx px. put4 px idx colour) transparent (data img)\<rparr>)))"

section \<open>\<open>KonvaCanvas\<close>: region extraction\<close>

text \<open>
  \<^verbatim>\<open>interface DetectedRegion\<close>.  The mask string is decoded by the browser into \<open>maskImages\<close>; the
  bounds play no part in the extraction.
\<close>

record detectedRegion =
  label :: string
  mask_png :: string

record position =
  pos_x :: int
  pos_y :: int
  pos_width :: nat
  pos_height :: nat

text \<open>What one extraction hands to \<open>onExtract\<close> and, when the prop is given, to \<open>onImageUpdate\<close>.\<close>

record extracted =
  ex_layer :: imageData
  ex_type :: string
  ex_position :: position
  ex_base :: "imageData option"

text \<open>The counting loop over the mask: \<open>(whitePixels, blackPixels)\<close>.\<close>

definition count_pixels :: "imageData \<Rightarrow> nat \<times> nat" where
  "count_pixels maskData =
     fold (\<lambda>i (whitePixels, blackPixels).
             if exceeds (byte_at (data maskData) i) 128 then (whitePixels + 1, blackPixels)
             else (whitePixels, blackPixels + 1))
       (by4 0 (length (data maskData))) (0, 0)"

definition isBackgroundRegion :: "string \<Rightarrow> imageData \<Rightarrow> bool" where
  "isBackgroundRegion lbl maskData =
     (case count_pixels maskData of (whitePixels, blackPixels) \<Rightarrow>
        includes_str (toLowerCase lbl) ''background'' \<or>
        includes_str (toLowerCase lbl) ''bg'' \<or>
        blackPixels * 3 < whitePixels)"



text \<open>
  The mask byte for image pixel \<open>(x, y)\<close>:
  \<^verbatim>\<open>maskX = Math.floor((x / originalWidth) * maskImg.width)\<close>, the same for \<open>maskY\<close>, and
  \<^verbatim>\<open>maskData.data[(maskY * maskImg.width + maskX) * 4]\<close>.
\<close>

definition remap :: "nat \<Rightarrow> nat \<Rightarrow> nat \<Rightarrow> jsnum" where
  "remap x original maskSize = jfloor (jmul (jdiv (num (int x)) (num (int original))) (num (int maskSize)))"

text \<open>
  The cells the remap can give for coordinate \<open>x\<close> of an image \<open>original\<close> wide (or high) on a
  mask \<open>maskSize\<close> wide (or high): cell \<open>\<lfloor>x * maskSize / original\<rfloor>\<close>, or the cell before it where
  \<open>x * maskSize\<close> is a multiple of \<open>original\<close>.
\<close>

definition mask_cell :: "nat \<Rightarrow> nat \<Rightarrow> nat \<Rightarrow> nat \<Rightarrow> bool" where
  "mask_cell c x original maskSize \<longleftrightarrow>
     c < maskSize \<and>
     (c = x * maskSize div original \<or>
      (original dvd x * maskSize \<and> c + 1 = x * maskSize div original))"

definition mask_sample :: "imageData \<Rightarrow> nat \<Rightarrow> nat \<Rightarrow> nat \<Rightarrow> nat \<Rightarrow> u8 option" where
  "mask_sample maskData originalWidth originalHeight x y =
     (let maskX = remap x originalWidth (width maskData);
          maskY = remap y originalHeight (height maskData);
          maskIdx = jmul (jadd (jmul maskY (num (int (width maskData)))) maskX) (num 4)
      in case index_of maskIdx of None \<Rightarrow> None | Some i \<Rightarrow> byte_at (data maskData) i)"

definition shouldKeep :: "bool \<Rightarrow> imageData \<Rightarrow> nat \<Rightarrow> nat \<Rightarrow> nat \<Rightarrow> nat \<Rightarrow> bool" where
  "shouldKeep inverted maskData originalWidth originalHeight x y =
     (let isWhite = exceeds (mask_sample maskData originalWidth originalHeight x y) 128
      in if inverted then \<not> isWhite else isWhite)"

definition apply_mask :: "bool \<Rightarrow> imageData \<Rightarrow> imageData \<Rightarrow> imageData" where
  "apply_mask inverted maskData imageData =
     imageData\<lparr>data := fold (\<lambda>(x, y) d.
         (let imageIdx = (y * width imageData + x) * 4
          in if \<not> shouldKeep inverted maskData (width imageData) (height imageData) x y
             then d[imageIdx + 3 := 0] else d))
       (pixels (width imageData) (height imageData)) (data imageData)\<rparr>"

definition remove_region :: "imageData \<Rightarrow> imageData \<Rightarrow> imageData" where
  "remove_region maskData mainImageData =
     mainImageData\<lparr>data := fold (\<lambda>(x, y) d.
         (let imageIdx = (y * width mainImageData + x) * 4;
              isWhite = exceeds (mask_sample maskData (width mainImageData)
                                   (height mainImageData) x y) 200
          in if isWhite then d[imageIdx + 3 := 0] else d))
       (pixels (width mainImageData) (height mainImageData)) (data mainImageData)\<rparr>"

text \<open>
  \<open>extractRegion\<close>.  \<open>imageElement\<close> and the entries of \<open>maskImages\<close> are the pixel buffers
  \<^verbatim>\<open>getImageData\<close> returns once the loaded image is drawn at its own size; \<open>None\<close> is the
  early return on missing data.
\<close>

definition extractRegion ::
  "detectedRegion list \<Rightarrow> (nat \<rightharpoonup> imageData) \<Rightarrow> imageData option \<Rightarrow> bool \<Rightarrow> nat
     \<Rightarrow> extracted option" where
  "extractRegion detectedRegions maskImages imageElement onImageUpdate regionIndex =
     (if regionIndex < length detectedRegions then
        (case (imageElement, maskImages regionIndex) of
           (Some imageData, Some maskData) \<Rightarrow>
             (let region = detectedRegions ! regionIndex;
                  inverted = isBackgroundRegion (label region) maskData
              in Some \<lparr>ex_layer = apply_mask inverted maskData imageData,
                        ex_type = label region,
                        ex_position = \<lparr>pos_x = 0, pos_y = 0, pos_width = width imageData,
                                        pos_height = height imageData\<rparr>,
                        ex_base = (if onImageUpdate then Some (remove_region maskData imageData)
                                   else None)\<rparr>)
         | _ \<Rightarrow> None)
      else None)"

section \<open>\<open>KonvaCanvas\<close>: lasso and brush\<close>

text \<open>
  \<open>imageSize\<close> (set when the image loads) and \<open>getImagePosition\<close>: the size and offset of the
  image as displayed on a stage of \<open>stage_width\<close> by \<open>stage_height\<close>.
\<close>

definition imageSize :: "nat \<Rightarrow> nat \<Rightarrow> imageData \<Rightarrow> jsnum \<times> jsnum" where
  "imageSize stage_width stage_height img =
     (let scale = jmin (jdiv (num (int stage_width)) (num (int (width img))))
                       (jdiv (num (int stage_height)) (num (int (height img))))
      in (jmul (num (int (width img))) scale, jmul (num (int (height img))) scale))"

definition getImagePosition :: "nat \<Rightarrow> nat \<Rightarrow> jsnum \<times> jsnum \<Rightarrow> jsnum \<times> jsnum" where
  "getImagePosition stage_width stage_height shown =
     (jdiv (jsub (num (int stage_width)) (fst shown)) (num 2),
      jdiv (jsub (num (int stage_height)) (snd shown)) (num 2))"

text \<open>
  The path of the lasso in native coordinates.  \<open>points\<close> is the flat array
  \<open>x\<^sub>0, y\<^sub>0, x\<^sub>1, y\<^sub>1, \<dots>\<close> in display coordinates; a missing last \<open>y\<close> is \<^verbatim>\<open>undefined\<close>, NaN here.
\<close>

fun native_path ::
  "jsnum \<times> jsnum \<Rightarrow> jsnum \<times> jsnum \<Rightarrow> jsnum list \<Rightarrow> (jsnum \<times> jsnum) list" where
  "native_path off scale [] = []"
| "native_path off scale [px] = [(jmul (jsub px (fst off)) (fst scale), NaN)]"
| "native_path off scale (px # py # points) =
     (jmul (jsub px (fst off)) (fst scale), jmul (jsub py (snd off)) (snd scale))
       # native_path off scale points"

text \<open>The two passes of the lasso over \<^verbatim>\<open>maskData.data[i]\<close>.\<close>

definition keep_inside :: "imageData \<Rightarrow> imageData \<Rightarrow> imageData" where
  "keep_inside maskData imageData =
     imageData\<lparr>data := fold (\<lambda>i d. if byte_at (data maskData) i = Some 0 then d[i + 3 := 0] else d)
                           (by4 0 (length (data imageData))) (data imageData)\<rparr>"

definition remove_inside :: "imageData \<Rightarrow> imageData \<Rightarrow> imageData" where
  "remove_inside maskData mainImageData =
     mainImageData\<lparr>data := fold (\<lambda>i d. if exceeds (byte_at (data maskData) i) 0 then d[i + 3 := 0] else d)
                               (by4 0 (length (data mainImageData))) (data mainImageData)\<rparr>"

text \<open>
  \<open>extractLassoSelection\<close>.  \<open>fill w h path\<close> stands for the browser's rasteriser: the pixels of
  a fresh \<open>w\<close> by \<open>h\<close> canvas after the closed path is filled in white.  \<open>lasso_mask\<close> is the
  \<open>maskData\<close> the function reads back.
\<close>

definition lasso_scale :: "nat \<Rightarrow> nat \<Rightarrow> imageData \<Rightarrow> jsnum \<times> jsnum" where
  "lasso_scale stage_width stage_height img =
     (jdiv (num (int (width img))) (fst (imageSize stage_width stage_height img)),
      jdiv (num (int (height img))) (snd (imageSize stage_width stage_height img)))"

definition lasso_mask ::
  "(nat \<Rightarrow> nat \<Rightarrow> (jsnum \<times> jsnum) list \<Rightarrow> imageData) \<Rightarrow> nat \<Rightarrow> nat \<Rightarrow> jsnum list
     \<Rightarrow> imageData \<Rightarrow> imageData" where
  "lasso_mask fill stage_width stage_height points img =
     fill (width img) (height img)
       (native_path
          (getImagePosition stage_width stage_height (imageSize stage_width stage_height img))
          (lasso_scale stage_width stage_height img) points)"

definition extractLassoSelection ::
  "(nat \<Rightarrow> nat \<Rightarrow> (jsnum \<times> jsnum) list \<Rightarrow> imageData) \<Rightarrow> nat \<Rightarrow> nat \<Rightarrow> jsnum list option
     \<Rightarrow> imageData option \<Rightarrow> bool \<Rightarrow> extracted option" where
  "extractLassoSelection fill stage_width stage_height points imageElement onImageUpdate =
     (case (points, imageElement) of
        (Some pts, Some imageData) \<Rightarrow>
          (let maskData = lasso_mask fill stage_width stage_height pts imageData
           in Some \<lparr>ex_layer = keep_inside maskData imageData,
                     ex_type = ''Lasso Selection'',
                     ex_position = \<lparr>pos_x = 0, pos_y = 0, pos_width = width imageData,
                                     pos_height = height imageData\<rparr>,
                     ex_base = (if onImageUpdate then Some (remove_inside maskData imageData)
                                else None)\<rparr>)
      | _ \<Rightarrow> None)"

text \<open>The entry point installed on \<open>window\<close>: fewer than six scalars is no selection.\<close>

definition extractLassoSelection_window ::
  "(nat \<Rightarrow> nat \<Rightarrow> (jsnum \<times> jsnum) list \<Rightarrow> imageData) \<Rightarrow> nat \<Rightarrow> nat \<Rightarrow> jsnum list option
     \<Rightarrow> imageData option \<Rightarrow> bool \<Rightarrow> extracted option" where
  "extractLassoSelection_window fill stage_width stage_height points imageElement onImageUpdate =
     (case points of
        None \<Rightarrow> None
      | Some pts \<Rightarrow>
          if length pts < 6 then None
          else extractLassoSelection fill stage_width stage_height points imageElement
                 onImageUpdate)"

text \<open>
  A canvas whose pixels the browser computes: its size and the drawing calls made on it.
\<close>

datatype draw_op = FillRect string int int nat nat | DrawImage string int int

record canvas =
  canvas_width :: nat
  canvas_height :: nat
  drawn :: "draw_op list"

text \<open>
  \<open>handleDrawMove\<close> while dragging.  \<open>pos\<close> is the pointer position on the stage, in display
  coordinates.  In select mode the handler only reports the hovered region.  In lasso mode
  the point joins the selection.  In brush and eraser mode the point joins the last line and a
  mask snapshot goes to \<open>onExtract\<close>: a canvas of the size of the stage, black, with the canvas
  of the Konva brush layer drawn at the origin (\<open>brushLayer\<close> names that canvas, \<open>None\<close> when
  the ref is unset).  The result is the new drawing state and the snapshot, if one was made.
  A current line exists only after \<open>handleDrawStart\<close> appended it; with no line at all the
  state update would throw, and the model leaves the state as it is.
\<close>

datatype mode = Select | Rectangle | Lasso | Brush | Circle | Eraser

record drawing =
  isDrawing :: bool
  lastPoint :: "(jsnum \<times> jsnum) option"
  selection :: "jsnum list option"
  lines :: "jsnum list list"
  currentLine :: bool

definition isPointInImage :: "nat \<Rightarrow> nat \<Rightarrow> imageData \<Rightarrow> jsnum \<times> jsnum \<Rightarrow> bool" where
  "isPointInImage stage_width stage_height img point =
     (let shown = imageSize stage_width stage_height img;
          off = getImagePosition stage_width stage_height shown;
          x = jsub (fst point) (fst off);
          y = jsub (snd point) (snd off)
      in jle (num 0) x \<and> jle x (fst shown) \<and> jle (num 0) y \<and> jle y (snd shown))"

definition brush_mask :: "nat \<Rightarrow> nat \<Rightarrow> string option \<Rightarrow> canvas option" where
  "brush_mask stage_width stage_height brushLayer =
     (case brushLayer of
        None \<Rightarrow> None
      | Some c \<Rightarrow>
          Some \<lparr>canvas_width = stage_width, canvas_height = stage_height,
                 drawn = [FillRect ''black'' 0 0 stage_width stage_height, DrawImage c 0 0]\<rparr>)"

definition handleDrawMove ::
  "nat \<Rightarrow> nat \<Rightarrow> mode \<Rightarrow> imageData option \<Rightarrow> string option \<Rightarrow> (jsnum \<times> jsnum) option
     \<Rightarrow> drawing \<Rightarrow> drawing \<times> canvas option" where
  "handleDrawMove stage_width stage_height m imageElement brushLayer pos st =
     (case (pos, imageElement) of
        (Some p, Some img) \<Rightarrow>
          if m = Select then (st, None)
          else if \<not> isDrawing st \<or> lastPoint st = None then (st, None)
          else if \<not> isPointInImage stage_width stage_height img p then (st, None)
          else if m = Lasso then
            (st\<lparr>selection := map_option (\<lambda>points. points @ [fst p, snd p]) (selection st)\<rparr>,
             None)
          else if m = Brush \<or> m = Eraser then
            (if \<not> currentLine st then (st, None)
             else
               (case rev (lines st) of
                  [] \<Rightarrow> (st, None)
                | lastLine # earlier \<Rightarrow>
                    (st\<lparr>lines := rev earlier @ [lastLine @ [fst p, snd p]]\<rparr>,
                     brush_mask stage_width stage_height brushLayer)))
          else (st, None)
      | _ \<Rightarrow> (st, None))"

section \<open>The document state of \<open>SegmentArt\<close>\<close>

text \<open>
  \<^verbatim>\<open>interface Layer\<close> and \<^verbatim>\<open>interface HistoryState\<close>.  Image contents are the data-URL
  strings the component stores.
\<close>

record layer =
  layer_id :: string
  layer_name :: string
  layer_url :: string
  layer_thumbnail :: string
  layer_visible :: bool
  layer_type :: string
  layer_x :: int
  layer_y :: int
  layer_width :: nat
  layer_height :: nat

record historyState =
  hs_image :: "string option"
  hs_layers :: "layer list"

text \<open>
  The React state cells read or written by the handlers modelled below.  A handler reads the
  cells of the render it was created in and its setter calls are applied together, so a handler
  is a function from the state to the next state.
\<close>

record app =
  uploadedImage :: "string option"
  layers :: "layer list"
  history :: "historyState list"
  historyIndex :: int
  selectedLayerIds :: "string fset"
  isMerging :: bool
  isFillingContent :: bool
  useLocalFill :: bool
  featherAmount :: int
  maskExpandPixels :: int
  detectedRegions :: "detectedRegion list"
  autoPrompt :: bool
  contentFillPrompt :: string
  dalleDebugData :: "string option"

text \<open>\<^verbatim>\<open>Array.prototype.slice(0, end)\<close>: a negative \<open>end\<close> counts from the end of the array.\<close>

definition slice0 :: "'a list \<Rightarrow> int \<Rightarrow> 'a list" where
  "slice0 xs e = (if e < 0 then take (nat (int (length xs) + e)) xs else take (nat e) xs)"

text \<open>
  \<open>saveToHistory\<close>.  \<^verbatim>\<open>JSON.parse(JSON.stringify(layers))\<close> is a deep copy; layers are values
  here, so the copy is the list itself.
\<close>

definition saveToHistory :: "app \<Rightarrow> app" where
  "saveToHistory s =
     (let newState = \<lparr>hs_image = uploadedImage s, hs_layers = layers s\<rparr>;
          newHistory = slice0 (history s) (historyIndex s + 1) @ [newState]
      in s\<lparr>history := newHistory, historyIndex := int (length newHistory) - 1\<rparr>)"

text \<open>
  \<open>handleUndo\<close> and \<open>handleRedo\<close>.  Reading \<^verbatim>\<open>history[newIndex]\<close> outside the array gives
  \<^verbatim>\<open>undefined\<close>, and \<^verbatim>\<open>state.image\<close> then throws a TypeError: the result \<open>None\<close>.
\<close>

definition at_index :: "'a list \<Rightarrow> int \<Rightarrow> 'a option" where
  "at_index xs i = (if 0 \<le> i \<and> i < int (length xs) then Some (xs ! nat i) else None)"

definition handleUndo :: "app \<Rightarrow> app option" where
  "handleUndo s =
     (if historyIndex s > 0 then
        (let newIndex = historyIndex s - 1 in
         case at_index (history s) newIndex of
           None \<Rightarrow> None
         | Some state \<Rightarrow>
             Some (s\<lparr>uploadedImage := hs_image state, layers := hs_layers state,
                     historyIndex := newIndex\<rparr>))
      else Some s)"

definition handleRedo :: "app \<Rightarrow> app option" where
  "handleRedo s =
     (if historyIndex s < int (length (history s)) - 1 then
        (let newIndex = historyIndex s + 1 in
         case at_index (history s) newIndex of
           None \<Rightarrow> None
         | Some state \<Rightarrow>
             Some (s\<lparr>uploadedImage := hs_image state, layers := hs_layers state,
                     historyIndex := newIndex\<rparr>))
      else Some s)"

text \<open>
  \<open>handleSegment\<close>, the \<open>onExtract\<close> callback: \<open>now\<close> is the value of \<^verbatim>\<open>Date.now()\<close>, and
  \<open>position\<close> the optional rectangle.
\<close>

definition capitalize :: "string \<Rightarrow> string" where
  "capitalize t = (case t of [] \<Rightarrow> [] | c # cs \<Rightarrow> toUpperCase_char c # cs)"

definition handleSegment :: "nat \<Rightarrow> string \<Rightarrow> string \<Rightarrow> position option \<Rightarrow> app \<Rightarrow> app" where
  "handleSegment now dataUrl type pos s =
     (let s' = saveToHistory s;
          newLayer = \<lparr>layer_id = ''layer-'' @ decimal now,
                      layer_name = capitalize type @ '' '' @ decimal (length (layers s) + 1),
                      layer_url = dataUrl, layer_thumbnail = dataUrl, layer_visible = True,
                      layer_type = type,
                      layer_x = (case pos of None \<Rightarrow> 0 | Some p \<Rightarrow> pos_x p),
                      layer_y = (case pos of None \<Rightarrow> 0 | Some p \<Rightarrow> pos_y p),
                      layer_width = (case pos of None \<Rightarrow> 0 | Some p \<Rightarrow> pos_width p),
                      layer_height = (case pos of None \<Rightarrow> 0 | Some p \<Rightarrow> pos_height p)\<rparr>
      in s'\<lparr>layers := layers s' @ [newLayer]\<rparr>)"

definition handleImageUpdate :: "string \<Rightarrow> app \<Rightarrow> app" where
  "handleImageUpdate dataUrl s = s\<lparr>uploadedImage := Some dataUrl\<rparr>"

text \<open>
  One extraction, as \<open>extractRegion\<close> and \<open>extractLassoSelection\<close> perform it: the layer goes to
  \<open>onExtract\<close>, then the updated base image to \<open>onImageUpdate\<close>.
\<close>

definition extraction :: "nat \<Rightarrow> string \<Rightarrow> string \<Rightarrow> position \<Rightarrow> string \<Rightarrow> app \<Rightarrow> app" where
  "extraction now layerUrl type pos baseUrl s =
     handleImageUpdate baseUrl (handleSegment now layerUrl type (Some pos) s)"

text \<open>The document of a state: base image and layer list.\<close>

definition document :: "app \<Rightarrow> string option \<times> layer list" where
  "document s = (uploadedImage s, layers s)"

text \<open>
  The initial values of the state cells, and an upload: \<open>handleFileUpload\<close> stores the image,
  and the effect on \<open>uploadedImage\<close> and \<open>history.length\<close> then starts the history.
\<close>

definition initial :: app where
  "initial =
     \<lparr>uploadedImage = None, layers = [], history = [], historyIndex = - 1,
      selectedLayerIds = {||}, isMerging = False, isFillingContent = False,
      useLocalFill = True, featherAmount = 5, maskExpandPixels = 2, detectedRegions = [],
      autoPrompt = True, contentFillPrompt = [], dalleDebugData = None\<rparr>"

definition upload :: "string \<Rightarrow> app \<Rightarrow> app" where
  "upload imageData s =
     (let s' = s\<lparr>uploadedImage := Some imageData\<rparr>
      in if imageData \<noteq> [] \<and> history s' = [] then
           s'\<lparr>history := [\<lparr>hs_image = Some imageData, hs_layers = []\<rparr>], historyIndex := 0\<rparr>
         else s')"


section \<open>Calls to the collaborators (\<open>api.ts\<close>)\<close>

text \<open>
  One pass through the \<^verbatim>\<open>try\<close> block of a call: it returns a value or throws.  \<open>Threw (Some m)\<close>
  is an \<^verbatim>\<open>Error\<close> with message \<open>m\<close>, \<open>Threw None\<close> any other thrown value.  The \<open>k\<close>-th pass
  of a call is \<open>f k\<close>.  A call ends with a value or a thrown message (\<open>Inl\<close>), after some number
  of passes and with the delays it waited, in milliseconds.
\<close>

datatype 'a attempt = Returned 'a | Threw "string option"

type_synonym 'a call = "(string + 'a) \<times> nat \<times> nat list"

definition maxRetries :: nat where
  "maxRetries = 3"

definition retryDelay :: nat where
  "retryDelay = 1000"

text \<open>\<open>validateApiKeys\<close>; a key is \<open>None\<close> when the environment variable is not set.\<close>

definition hfValid :: "string option \<Rightarrow> bool" where
  "hfValid key =
     (case key of
        None \<Rightarrow> False
      | Some k \<Rightarrow> k \<noteq> [] \<and> startsWith k ''hf_'' \<and> 30 < length k \<and>
          \<not> includes_str k ''your_huggingface_api_key_here'' \<and> \<not> includes_str k ''your_key_here'')"

definition openaiValid :: "string option \<Rightarrow> bool" where
  "openaiValid key =
     (case key of
        None \<Rightarrow> False
      | Some k \<Rightarrow> k \<noteq> [] \<and> startsWith k ''sk-'' \<and> 10 < length k \<and>
          \<not> includes_str k ''your_key_here'')"

definition is_error_with :: "string option \<Rightarrow> string \<Rightarrow> bool" where
  "is_error_with e t = (case e of None \<Rightarrow> False | Some m \<Rightarrow> includes_str m t)"

text \<open>The \<^verbatim>\<open>while (retries > 0)\<close> loop of \<open>detectObjects\<close> with its \<^verbatim>\<open>catch\<close> block.\<close>

function detectObjects_loop ::
  "(nat \<Rightarrow> 'a attempt) \<Rightarrow> nat \<Rightarrow> string option \<Rightarrow> nat \<Rightarrow> nat list \<Rightarrow> 'a call" where
  "detectObjects_loop f retries lastError k waited =
     (if 0 < retries then
        (case f k of
           Returned v \<Rightarrow> (Inr v, k + 1, waited)
         | Threw e \<Rightarrow>
             (let lastError' = (case e of Some m \<Rightarrow> m | None \<Rightarrow> ''An unexpected error occurred'')
              in if is_error_with e ''loading'' \<and> 1 < retries then
                   detectObjects_loop f (retries - 1) (Some lastError') (k + 1)
                     (waited @ [retryDelay])
                 else if is_error_with e ''Rate limit'' \<and> 1 < retries then
                   detectObjects_loop f (retries - 1) (Some lastError') (k + 1)
                     (waited @ [retryDelay])
                 else if retries \<le> 1 then (Inl lastError', k + 1, waited)
                 else detectObjects_loop f (retries - 1) (Some lastError') (k + 1)
                        (waited @ [retryDelay])))
      else
        (Inl (case lastError of Some m \<Rightarrow> m
              | None \<Rightarrow> ''Failed to detect objects after multiple retries''), k, waited))"
  by pat_completeness auto
termination
  by (relation "measure (\<lambda>(f, retries, lastError, k, waited). retries)") auto

declare detectObjects_loop.simps [simp del]

definition detectObjects :: "string option \<Rightarrow> (nat \<Rightarrow> 'a attempt) \<Rightarrow> 'a call" where
  "detectObjects HF_API_KEY f =
     (if \<not> hfValid HF_API_KEY then
        (Inl (''Hugging Face API key is not configured or invalid. Please ensure it starts '' @
              ''with \"hf_\" and has inference permissions.''), 0, [])
      else detectObjects_loop f maxRetries None 0 [])"

text \<open>The loop of \<open>contentAwareFill\<close>.\<close>

function contentAwareFill_loop ::
  "(nat \<Rightarrow> 'a attempt) \<Rightarrow> nat \<Rightarrow> string option \<Rightarrow> nat \<Rightarrow> nat list \<Rightarrow> 'a call" where
  "contentAwareFill_loop f retries lastError k waited =
     (if 0 < retries then
        (case f k of
           Returned v \<Rightarrow> (Inr v, k + 1, waited)
         | Threw e \<Rightarrow>
             (let lastError' = (case e of Some m \<Rightarrow> m | None \<Rightarrow> ''Failed to fill transparent areas'')
              in if is_error_with e ''rate limit'' \<and> 1 < retries then
                   contentAwareFill_loop f (retries - 1) (Some lastError') (k + 1)
                     (waited @ [retryDelay * 2])
                 else if 1 < retries then
                   contentAwareFill_loop f (retries - 1) (Some lastError') (k + 1)
                     (waited @ [retryDelay])
                 else (Inl lastError', k + 1, waited)))
      else
        (Inl (case lastError of Some m \<Rightarrow> m
              | None \<Rightarrow> ''Failed to fill transparent areas after multiple retries''), k, waited))"
  by pat_completeness auto
termination
  by (relation "measure (\<lambda>(f, retries, lastError, k, waited). retries)") auto

declare contentAwareFill_loop.simps [simp del]

definition contentAwareFill :: "string option \<Rightarrow> (nat \<Rightarrow> 'a attempt) \<Rightarrow> 'a call" where
  "contentAwareFill OPENAI_API_KEY f =
     (if \<not> openaiValid OPENAI_API_KEY then
        (Inl ''OpenAI API key is not configured or invalid. Please check your .env file.'', 0, [])
      else contentAwareFill_loop f maxRetries None 0 [])"


text \<open>The wait of \<open>contentAwareFill\<close> after a pass that threw \<open>e\<close>.\<close>

definition fill_delay :: "string option \<Rightarrow> nat" where
  "fill_delay e = (if is_error_with e ''rate limit'' then retryDelay * 2 else retryDelay)"

section \<open>\<open>SegmentArt\<close>: merging layers\<close>

text \<open>
  How \<open>mergeLayers\<close> can end.  The promise that waits for an image has no \<^verbatim>\<open>onerror\<close> handler:
  when an image does not load it never settles, the function never resumes
  (\<open>Never_resumes\<close>), and the state stays as it was left before the wait.
\<close>

datatype merge_outcome = Select_more_layers | Merged | Merge_error string | Never_resumes

text \<open>
  The browser: \<open>natural_size url\<close> is the size of the image at \<open>url\<close> once loaded (\<open>None\<close>
  when it does not load), \<open>toDataURL\<close> encodes a canvas.
\<close>

definition selected :: "app \<Rightarrow> layer \<Rightarrow> bool" where
  "selected s l \<longleftrightarrow> layer_id l |\<in>| selectedLayerIds s"

fun draw_layers ::
  "(string \<Rightarrow> (nat \<times> nat) option) \<Rightarrow> layer list \<Rightarrow> canvas \<Rightarrow> canvas option" where
  "draw_layers natural_size [] c = Some c"
| "draw_layers natural_size (l # ls) c =
     (case natural_size (layer_url l) of
        None \<Rightarrow> None
      | Some sz \<Rightarrow>
          draw_layers natural_size ls (c\<lparr>drawn := drawn c @ [DrawImage (layer_url l) 0 0]\<rparr>))"

definition mergeLayers ::
  "(string \<Rightarrow> (nat \<times> nat) option) \<Rightarrow> (canvas \<Rightarrow> string) \<Rightarrow> nat \<Rightarrow> app
     \<Rightarrow> merge_outcome \<times> app" where
  "mergeLayers natural_size toDataURL now s =
     (if fcard (selectedLayerIds s) < 2 then (Select_more_layers, s)
      else
        (let s1 = saveToHistory (s\<lparr>isMerging := True\<rparr>);
             selectedLayers = filter (selected s) (layers s)
         in case selectedLayers of
              [] \<Rightarrow> (Merge_error ''Cannot read properties of undefined'',
                     s1\<lparr>isMerging := False\<rparr>)
            | first # others \<Rightarrow>
                (case natural_size (layer_url first) of
                   None \<Rightarrow> (Never_resumes, s1)
                 | Some (w, h) \<Rightarrow>
                     (case draw_layers natural_size selectedLayers
                             \<lparr>canvas_width = w, canvas_height = h, drawn = []\<rparr> of
                        None \<Rightarrow> (Never_resumes, s1)
                      | Some c \<Rightarrow>
                          (let mergedDataUrl = toDataURL c;
                               mergedLayer =
                                 \<lparr>layer_id = ''layer-'' @ decimal now,
                                  layer_name = ''Merged Layer '' @ decimal (length (layers s) + 1),
                                  layer_url = mergedDataUrl, layer_thumbnail = mergedDataUrl,
                                  layer_visible = True, layer_type = ''merged'',
                                  layer_x = 0, layer_y = 0,
                                  layer_width = canvas_width c, layer_height = canvas_height c\<rparr>
                           in (Merged,
                               s1\<lparr>layers := filter (\<lambda>l. \<not> selected s l) (layers s1) @ [mergedLayer],
                                   selectedLayerIds := {||}, isMerging := False\<rparr>))))))"

text \<open>
  The placement the specification describes, for comparison with \<open>mergeLayers\<close>: the merged
  layers leave the stack and the new layer stands where the topmost of them stood.
\<close>

definition placed_at_topmost :: "(layer \<Rightarrow> bool) \<Rightarrow> layer list \<Rightarrow> layer \<Rightarrow> layer list" where
  "placed_at_topmost sel ls merged =
     (case rev (filter sel ls) of
        [] \<Rightarrow> ls
      | topmost # others \<Rightarrow>
          concat (map (\<lambda>l. if l = topmost then [merged] else if sel l then [] else [l]) ls))"

section \<open>\<open>SegmentArt\<close>: content-aware fill\<close>

text \<open>\<^verbatim>\<open>String.prototype.trim\<close> on ASCII white space.\<close>

definition is_space :: "char \<Rightarrow> bool" where
  "is_space c \<longleftrightarrow> (of_char c :: nat) \<in> {9, 10, 11, 12, 13, 32}"

definition trim :: "string \<Rightarrow> string" where
  "trim s = rev (dropWhile is_space (rev (dropWhile is_space s)))"

definition facial :: "detectedRegion \<Rightarrow> bool" where
  "facial r \<longleftrightarrow>
     includes_str (label r) ''face'' \<or> includes_str (label r) ''eye'' \<or>
     includes_str (label r) ''nose'' \<or> includes_str (label r) ''mouth'' \<or>
     includes_str (label r) ''skin''"

definition generateSmartPrompt :: "app \<Rightarrow> bool \<Rightarrow> string" where
  "generateSmartPrompt s hasFacialFeatures =
     (if \<not> autoPrompt s \<and> trim (contentFillPrompt s) \<noteq> [] then contentFillPrompt s
      else if hasFacialFeatures \<or> list_ex facial (detectedRegions s) then
        ''smooth natural human skin, realistic skin texture, natural skin tone, seamless''
      else if trim (contentFillPrompt s) \<noteq> [] then trim (contentFillPrompt s)
      else ''natural texture matching surrounding area, seamless blend'')"

text \<open>
  What the fill meets outside the component: \<open>decode\<close> gives the pixels of the loaded image
  (\<open>None\<close> when the image fails to load); \<open>encode_png\<close> is \<^verbatim>\<open>canvas.toDataURL('image/png')\<close>;
  \<open>readable\<close> is whether \<^verbatim>\<open>getImageData\<close> is allowed in \<open>handleContentAwareFill\<close>; \<open>fetchable\<close>
  whether the base image can be fetched as a blob; \<open>edits mask prompt\<close> are the passes of the
  request to the inpainting service, each returning the result URL and the debug record;
  \<open>exp_impl\<close>, \<open>cos_impl\<close> and \<open>sin_impl\<close> are the engine's \<^verbatim>\<open>Math.exp\<close>, \<^verbatim>\<open>Math.cos\<close> and \<^verbatim>\<open>Math.sin\<close>.
\<close>

record fill_env =
  decode :: "string \<Rightarrow> imageData option"
  encode_png :: "imageData \<Rightarrow> string"
  readable :: bool
  fetchable :: bool
  OPENAI_API_KEY :: "string option"
  edits :: "imageData \<Rightarrow> string \<Rightarrow> nat \<Rightarrow> (string \<times> string option) attempt"
  exp_impl :: "int \<Rightarrow> int \<Rightarrow> jsnum"
  cos_impl :: "int \<Rightarrow> int \<Rightarrow> jsnum"
  sin_impl :: "int \<Rightarrow> int \<Rightarrow> jsnum"

text \<open>
  \<open>localContentAwareFill\<close> resolves with a URL or rejects (\<open>Inl\<close>).  The image is requested with
  \<^verbatim>\<open>crossOrigin = 'anonymous'\<close>, so an image that loads can be read; an image without a
  transparent pixel is resolved with the URL that came in.
\<close>

definition localContentAwareFill :: "fill_env \<Rightarrow> string \<Rightarrow> string + string" where
  "localContentAwareFill env imageUrl =
     (case decode env imageUrl of
        None \<Rightarrow> Inl ''Failed to load image''
      | Some img \<Rightarrow>
          (case fill_transparent (cos_impl env) (sin_impl env) img of
             None \<Rightarrow> Inr imageUrl
           | Some filled \<Rightarrow> Inr (encode_png env filled)))"

datatype fill_outcome = No_image | Fill_success | No_gaps_found | Fill_error string

definition hasTransparency :: "u8 list \<Rightarrow> bool" where
  "hasTransparency px = list_ex (\<lambda>i. below (byte_at px i) 255) (by4 3 (length px))"

definition handleContentAwareFill :: "fill_env \<Rightarrow> app \<Rightarrow> fill_outcome \<times> app" where
  "handleContentAwareFill env s =
     (case uploadedImage s of
        None \<Rightarrow> (No_image, s)
      | Some url \<Rightarrow>
          (let failed = (\<lambda>m. (Fill_error m, s\<lparr>isFillingContent := False\<rparr>))
           in if url = [] then (No_image, s)
              else if useLocalFill s then
                (case localContentAwareFill env url of
                   Inl m \<Rightarrow> failed m
                 | Inr filledImageUrl \<Rightarrow>
                     (Fill_success,
                      (saveToHistory s)\<lparr>uploadedImage := Some filledImageUrl,
                                         isFillingContent := False\<rparr>))
              else
                (case decode env url of
                   None \<Rightarrow> failed ''Failed to fill content''
                 | Some imageData \<Rightarrow>
                     if \<not> readable env then
                       failed (''Cannot access image pixels - please download and re-upload '' @
                               ''the image to continue editing'')
                     else if \<not> hasTransparency (data imageData) then
                       (No_gaps_found, s\<lparr>isFillingContent := False\<rparr>)
                     else if \<not> fetchable env then
                       failed ''Cannot fetch image - please download and re-upload to continue''
                     else
                       (let improvedMaskData =
                              createImprovedMask (exp_impl env) imageData (featherAmount s)
                                (maskExpandPixels s);
                            smartPrompt = generateSmartPrompt s (detectedRegions s \<noteq> [])
                        in case fst (contentAwareFill (OPENAI_API_KEY env)
                                       (edits env improvedMaskData smartPrompt)) of
                             Inl m \<Rightarrow> failed m
                           | Inr (filledImageUrl, debugData) \<Rightarrow>
                               (Fill_success,
                                (saveToHistory s)\<lparr>uploadedImage := Some filledImageUrl,
                                                   dalleDebugData :=
                                                     (case debugData of
                                                        None \<Rightarrow> dalleDebugData s
                                                      | Some d \<Rightarrow> Some d),
                                                   isFillingContent := False\<rparr>)))))"


section \<open>Examples used below\<close>

definition square :: position where
  "square = \<lparr>pos_x = 0, pos_y = 0, pos_width = 100, pos_height = 100\<rparr>"

definition plain_layer :: "string \<Rightarrow> layer" where
  "plain_layer i =
     \<lparr>layer_id = i, layer_name = i, layer_url = ''data:'' @ i, layer_thumbnail = ''data:'' @ i,
      layer_visible = True, layer_type = ''mask'', layer_x = 0, layer_y = 0,
      layer_width = 100, layer_height = 100\<rparr>"

definition four_layers :: app where
  "four_layers =
     (upload ''data:base'' initial)
       \<lparr>layers := [plain_layer ''a'', plain_layer ''b'', plain_layer ''c'', plain_layer ''d''],
        selectedLayerIds := {|''a'', ''b''|}\<rparr>"

definition valid_hf_key :: "string option" where
  "valid_hf_key = Some ''hf_0123456789abcdefghijklmnopqrstuv''"

definition valid_openai_key :: "string option" where
  "valid_openai_key = Some ''sk-0123456789abcdef''"

definition invalid_token :: string where
  "invalid_token = ''Invalid Hugging Face API token. Please check your token configuration '' @
     ''and ensure it has inference permissions.''"

definition quota_exceeded :: string where
  "quota_exceeded = ''OpenAI quota exceeded. Please check your billing details.''"

text \<open>A stand-in for an engine function where no finite argument reaches it.\<close>

definition exp_unused :: "int \<Rightarrow> int \<Rightarrow> jsnum" where
  "exp_unused m e = NaN"

text \<open>An inpainting service that answers every request with a quota error.\<close>

definition failing_ai :: fill_env where
  "failing_ai =
     \<lparr>decode = (\<lambda>u. Some \<lparr>width = 1, height = 1, data = [0, 0, 0, 0]\<rparr>),
      encode_png = (\<lambda>img. ''data:image/png;base64,''),
      readable = True, fetchable = True, OPENAI_API_KEY = valid_openai_key,
      edits = (\<lambda>m p k. Threw (Some quota_exceeded)),
      exp_impl = exp_unused, cos_impl = exp_unused, sin_impl = exp_unused\<rparr>"

definition one_layer_ai :: app where
  "one_layer_ai =
     (upload ''data:base'' initial)\<lparr>layers := [plain_layer ''a''], useLocalFill := False\<rparr>"

text \<open>An image given pixel by pixel.\<close>

definition image_of :: "nat \<Rightarrow> nat \<Rightarrow> (nat \<Rightarrow> nat \<Rightarrow> u8 \<times> u8 \<times> u8 \<times> u8) \<Rightarrow> imageData" where
  "image_of w h f =
     \<lparr>width = w, height = h,
      data = concat (map (\<lambda>(x, y). case f x y of (r, g, b, a) \<Rightarrow> [r, g, b, a]) (pixels w h))\<rparr>"

text \<open>
  Two 4 by 4 images with the same red channel, 200 in the corner \<open>(0, 0)\<close> and 10 elsewhere,
  and different green, blue and alpha channels; and a single white pixel.
\<close>

definition corner4 :: imageData where
  "corner4 = image_of 4 4 (\<lambda>x y. if x = 0 \<and> y = 0 then (200, 1, 2, 3) else (10, 1, 2, 3))"

definition corner4' :: imageData where
  "corner4' = image_of 4 4 (\<lambda>x y. if x = 0 \<and> y = 0 then (200, 9, 8, 255) else (10, 7, 6, 0))"

definition white_pixel :: imageData where
  "white_pixel = \<lparr>width = 1, height = 1, data = [255, 255, 255, 255]\<rparr>"





definition strip22 :: imageData where
  "strip22 = image_of 22 1 (\<lambda>x y. (9, 9, 9, 255))"

definition mask22 :: imageData where
  "mask22 = image_of 22 1 (\<lambda>x y. if x = 15 then (255, 255, 255, 255) else (0, 0, 0, 255))"

definition cup :: detectedRegion where
  "cup = \<lparr>label = ''cup'', mask_png = ''iVBORw0KGgo''\<rparr>"

text \<open>
  The 100 by 100 opaque red image; a lasso, in display coordinates on the 800 by 600 stage,
  around the top-left quadrant of that image; a rasteriser
  that fills the square with the corners \<open>(0, 0)\<close> and \<open>(50, 50)\<close> when that is the path; and
  a drawing state in the middle of a brush stroke.
\<close>

definition red100 :: imageData where
  "red100 = image_of 100 100 (\<lambda>x y. (255, 0, 0, 255))"

definition corners :: "(jsnum \<times> jsnum) list" where
  "corners = [(num 0, num 0), (num 50, num 0), (num 50, num 50), (num 0, num 50)]"

definition square_fill :: "nat \<Rightarrow> nat \<Rightarrow> (jsnum \<times> jsnum) list \<Rightarrow> imageData" where
  "square_fill w h path =
     (if path = corners
      then image_of w h (\<lambda>x y. if x < 50 \<and> y < 50 then (255, 255, 255, 255) else (0, 0, 0, 0))
      else new_ImageData w h)"

definition lasso_points :: "jsnum list" where
  "lasso_points = map num [100, 0, 400, 0, 400, 300, 100, 300]"

definition dragging :: drawing where
  "dragging =
     \<lparr>isDrawing = True, lastPoint = Some (num 390, num 300), selection = None,
      lines = [[num 390, num 300]], currentLine = True\<rparr>"

section \<open>History\<close>

lemma redo_after_undo_restores_snapshot:
  assumes "0 \<le> historyIndex s" and "historyIndex s < int (length (history s))"
  shows "map_option document
           (Option.bind (handleUndo (extraction now l t p b s)) handleRedo) = Some (document s)"
  using assms
  by (simp add: extraction_def handleImageUpdate_def handleSegment_def saveToHistory_def
      slice0_def document_def Let_def handleUndo_def handleRedo_def at_index_def nth_append)

text \<open>
  C4.  Extraction, undo, redo on the code.  From the state \<open>S0\<close> right after an upload, one
  extraction gives \<open>S1\<close>.  Undo restores the document of \<open>S0\<close>; redo then restores the document
  of \<open>S0\<close> once more, not that of \<open>S1\<close>: the snapshot is taken before the change and the
  changed state is never stored.  After a second extraction (\<open>S2\<close>) undo restores the document
  of \<open>S0\<close>, skipping \<open>S1\<close>.
\<close>

theorem undo_redo_after_extraction:
  "let S0 = upload ''data:base'' initial;
       S1 = extraction 1 ''data:layer1'' ''Lasso Selection'' square ''data:holed1'' S0;
       S2 = extraction 2 ''data:layer2'' ''Lasso Selection'' square ''data:holed2'' S1
   in map_option document (handleUndo S1) = Some (document S0) \<and>
      map_option document (Option.bind (handleUndo S1) handleRedo) = Some (document S0) \<and>
      document S1 \<noteq> document S0 \<and>
      map_option document (handleUndo S2) = Some (document S0) \<and>
      document S2 \<noteq> document S1"
  by (simp add: upload_def initial_def extraction_def handleImageUpdate_def handleSegment_def
      saveToHistory_def slice0_def document_def Let_def handleUndo_def handleRedo_def
      at_index_def)

section \<open>Merging\<close>

lemma draw_layers_all:
  "\<forall>l \<in> set ls. natural_size (layer_url l) \<noteq> None \<Longrightarrow>
   draw_layers natural_size ls c =
     Some (c\<lparr>drawn := drawn c @ map (\<lambda>l. DrawImage (layer_url l) 0 0) ls\<rparr>)"
  by (induction ls arbitrary: c) (auto split: option.splits)

lemma draw_layers_stuck:
  "\<exists>l \<in> set ls. natural_size (layer_url l) = None \<Longrightarrow> draw_layers natural_size ls c = None"
  by (induction ls arbitrary: c) (auto split: option.splits)

text \<open>
  C6, as stated, fails on the code: with layers \<open>a, b, c, d\<close> (bottom to top) and \<open>a, b\<close>
  selected, the merged layer ends on top of \<open>c\<close> and \<open>d\<close>, not where \<open>b\<close> stood.
\<close>

theorem merged_layer_not_at_topmost_position:
  "map layer_id
     (layers (snd (mergeLayers (\<lambda>u. Some (100, 100)) (\<lambda>c. ''data:merged'') 5 four_layers))) =
     [''c'', ''d'', ''layer-5''] \<and>
   map layer_id
     (placed_at_topmost (selected four_layers) (layers four_layers)
        (last (layers (snd (mergeLayers (\<lambda>u. Some (100, 100)) (\<lambda>c. ''data:merged'') 5
           four_layers))))) =
     [''layer-5'', ''c'', ''d'']"
  by (simp add: mergeLayers_def four_layers_def upload_def initial_def saveToHistory_def
      slice0_def selected_def plain_layer_def placed_at_topmost_def Let_def fcard_finsert_if
      decimal.simps digit_def)

text \<open>
  C6, amended.  Fewer than two selected ids: the precondition failure is reported and the state
  is unchanged.  Two or more: the layers of the stack whose ids are selected are taken in stack
  order; when they are \<open>first # others\<close>, so at least one, and their images load, they are
  drawn in that order on a canvas of the size of \<open>first\<close>'s image, they leave the stack, and
  the flattened layer is appended at the end (the top) of the stack.  Nothing is said here of
  a selection none of whose ids is in the stack, nor of an image that does not load.
\<close>

theorem mergeLayers_appends_merged_layer:
  "(fcard (selectedLayerIds s) < 2 \<longrightarrow>
      mergeLayers natural_size toDataURL now s = (Select_more_layers, s)) \<and>
   (2 \<le> fcard (selectedLayerIds s) \<and>
    filter (selected s) (layers s) = first # others \<and>
    natural_size (layer_url first) = Some (w, h) \<and>
    (\<forall>l \<in> set others. natural_size (layer_url l) \<noteq> None) \<longrightarrow>
      mergeLayers natural_size toDataURL now s =
        (Merged,
         (saveToHistory s)
           \<lparr>layers := filter (\<lambda>l. \<not> selected s l) (layers s) @
              [\<lparr>layer_id = ''layer-'' @ decimal now,
                layer_name = ''Merged Layer '' @ decimal (length (layers s) + 1),
                layer_url = toDataURL \<lparr>canvas_width = w, canvas_height = h,
                  drawn = map (\<lambda>l. DrawImage (layer_url l) 0 0) (first # others)\<rparr>,
                layer_thumbnail = toDataURL \<lparr>canvas_width = w, canvas_height = h,
                  drawn = map (\<lambda>l. DrawImage (layer_url l) 0 0) (first # others)\<rparr>,
                layer_visible = True, layer_type = ''merged'', layer_x = 0, layer_y = 0,
                layer_width = w, layer_height = h\<rparr>],
            selectedLayerIds := {||}, isMerging := False\<rparr>))"
proof (intro conjI impI)
  assume "fcard (selectedLayerIds s) < 2"
  then show "mergeLayers natural_size toDataURL now s = (Select_more_layers, s)"
    by (simp add: mergeLayers_def)
next
  assume a: "2 \<le> fcard (selectedLayerIds s) \<and>
    filter (selected s) (layers s) = first # others \<and>
    natural_size (layer_url first) = Some (w, h) \<and>
    (\<forall>l \<in> set others. natural_size (layer_url l) \<noteq> None)"
  then have all: "\<forall>l \<in> set (first # others). natural_size (layer_url l) \<noteq> None"
    by simp
  have d: "draw_layers natural_size (first # others)
             \<lparr>canvas_width = w, canvas_height = h, drawn = []\<rparr> =
           Some \<lparr>canvas_width = w, canvas_height = h,
                  drawn = map (\<lambda>l. DrawImage (layer_url l) 0 0) (first # others)\<rparr>"
    using draw_layers_all [OF all, of "\<lparr>canvas_width = w, canvas_height = h, drawn = []\<rparr>"]
    by simp
  from a have n: "\<not> fcard (selectedLayerIds s) < 2"
    by simp
  have l: "layers (saveToHistory (s\<lparr>isMerging := True\<rparr>)) = layers s"
    by (simp add: saveToHistory_def Let_def)
  have r: "(saveToHistory (s\<lparr>isMerging := True\<rparr>))\<lparr>layers := ls, selectedLayerIds := {||},
             isMerging := False\<rparr> =
           (saveToHistory s)\<lparr>layers := ls, selectedLayerIds := {||}, isMerging := False\<rparr>" for ls
    by (simp add: saveToHistory_def Let_def)
  from a have f: "filter (selected s) (layers s) = first # others"
    and sz: "natural_size (layer_url first) = Some (w, h)"
    by simp_all
  show "mergeLayers natural_size toDataURL now s =
        (Merged,
         (saveToHistory s)
           \<lparr>layers := filter (\<lambda>l. \<not> selected s l) (layers s) @
              [\<lparr>layer_id = ''layer-'' @ decimal now,
                layer_name = ''Merged Layer '' @ decimal (length (layers s) + 1),
                layer_url = toDataURL \<lparr>canvas_width = w, canvas_height = h,
                  drawn = map (\<lambda>l. DrawImage (layer_url l) 0 0) (first # others)\<rparr>,
                layer_thumbnail = toDataURL \<lparr>canvas_width = w, canvas_height = h,
                  drawn = map (\<lambda>l. DrawImage (layer_url l) 0 0) (first # others)\<rparr>,
                layer_visible = True, layer_type = ''merged'', layer_x = 0, layer_y = 0,
                layer_width = w, layer_height = h\<rparr>],
            selectedLayerIds := {||}, isMerging := False\<rparr>)"
    unfolding mergeLayers_def Let_def
    by (simp only: n if_False f list.case sz option.case prod.case d l r canvas.simps)
qed


theorem mergeLayers_appends_merged_layer_witness:
  "fcard (selectedLayerIds (four_layers\<lparr>selectedLayerIds := {|''a''|}\<rparr>)) < 2 \<and>
   mergeLayers (\<lambda>u. Some (100, 100)) (\<lambda>c. ''data:merged'') 5
       (four_layers\<lparr>selectedLayerIds := {|''a''|}\<rparr>) =
     (Select_more_layers, four_layers\<lparr>selectedLayerIds := {|''a''|}\<rparr>) \<and>
   2 \<le> fcard (selectedLayerIds four_layers) \<and>
   filter (selected four_layers) (layers four_layers) = [plain_layer ''a'', plain_layer ''b''] \<and>
   fst (mergeLayers (\<lambda>u. Some (100, 100)) (\<lambda>c. ''data:merged'') 5 four_layers) = Merged \<and>
   map layer_id
     (layers (snd (mergeLayers (\<lambda>u. Some (100, 100)) (\<lambda>c. ''data:merged'') 5 four_layers))) =
     [''c'', ''d'', ''layer-5'']"
proof -
  have h1: "fcard (selectedLayerIds (four_layers\<lparr>selectedLayerIds := {|''a''|}\<rparr>)) < 2"
    by (simp add: fcard_finsert_if)
  have h2: "2 \<le> fcard (selectedLayerIds four_layers) \<and>
    filter (selected four_layers) (layers four_layers) = plain_layer ''a'' # [plain_layer ''b''] \<and>
    (\<lambda>u. Some (100, 100)) (layer_url (plain_layer ''a'')) = Some (100 :: nat, 100 :: nat) \<and>
    (\<forall>l \<in> set [plain_layer ''b'']. (\<lambda>u. Some (100 :: nat, 100 :: nat)) (layer_url l) \<noteq> None)"
    by (simp add: four_layers_def selected_def plain_layer_def fcard_finsert_if)
  have nonsel: "filter (\<lambda>l. \<not> selected four_layers l) (layers four_layers) =
      [plain_layer ''c'', plain_layer ''d'']"
    by (simp add: four_layers_def selected_def plain_layer_def)
  from mergeLayers_appends_merged_layer
         [of "four_layers\<lparr>selectedLayerIds := {|''a''|}\<rparr>" "\<lambda>u. Some (100, 100)"
             "\<lambda>c. ''data:merged''" 5] h1
  have r1: "mergeLayers (\<lambda>u. Some (100, 100)) (\<lambda>c. ''data:merged'') 5
       (four_layers\<lparr>selectedLayerIds := {|''a''|}\<rparr>) =
     (Select_more_layers, four_layers\<lparr>selectedLayerIds := {|''a''|}\<rparr>)"
    by blast
  from mergeLayers_appends_merged_layer
         [of four_layers "\<lambda>u. Some (100, 100)" "\<lambda>c. ''data:merged''" 5
             "plain_layer ''a''" "[plain_layer ''b'']" 100 100] h2
  have r2: "mergeLayers (\<lambda>u. Some (100, 100)) (\<lambda>c. ''data:merged'') 5 four_layers =
      (Merged,
       (saveToHistory four_layers)
         \<lparr>layers := filter (\<lambda>l. \<not> selected four_layers l) (layers four_layers) @
            [\<lparr>layer_id = ''layer-'' @ decimal 5,
              layer_name = ''Merged Layer '' @ decimal (length (layers four_layers) + 1),
              layer_url = ''data:merged'', layer_thumbnail = ''data:merged'',
              layer_visible = True, layer_type = ''merged'', layer_x = 0, layer_y = 0,
              layer_width = 100, layer_height = 100\<rparr>],
          selectedLayerIds := {||}, isMerging := False\<rparr>)"
    by blast
  show ?thesis
    using h1 h2 r1
    by (simp add: r2 nonsel plain_layer_def decimal.simps digit_def)
qed

text \<open>
  The two ways a merge of two or more ids ends without a merged layer.  \<open>deleteLayer\<close> does
  not clear the selection, so every selected id can belong to a deleted layer: then
  \<^verbatim>\<open>selectedLayers[0]\<close> is \<^verbatim>\<open>undefined\<close>, the \<^verbatim>\<open>try\<close> block throws and the error is reported after
  the history entry has been pushed.  And when the image of a selected layer does not load, the
  promise that waits for it never settles.
\<close>

lemma mergeLayers_without_result:
  "(2 \<le> fcard (selectedLayerIds s) \<and> filter (selected s) (layers s) = [] \<longrightarrow>
      (\<exists>message. mergeLayers natural_size toDataURL now s =
         (Merge_error message, (saveToHistory s)\<lparr>isMerging := False\<rparr>))) \<and>
   (2 \<le> fcard (selectedLayerIds s) \<and>
    (\<exists>l \<in> set (filter (selected s) (layers s)). natural_size (layer_url l) = None) \<longrightarrow>
      mergeLayers natural_size toDataURL now s =
        (Never_resumes, (saveToHistory s)\<lparr>isMerging := True\<rparr>))"
proof (intro conjI impI)
  assume a: "2 \<le> fcard (selectedLayerIds s) \<and> filter (selected s) (layers s) = []"
  have "(saveToHistory (s\<lparr>isMerging := True\<rparr>))\<lparr>isMerging := False\<rparr> =
        (saveToHistory s)\<lparr>isMerging := False\<rparr>"
    by (simp add: saveToHistory_def Let_def)
  with a show "\<exists>message. mergeLayers natural_size toDataURL now s =
         (Merge_error message, (saveToHistory s)\<lparr>isMerging := False\<rparr>)"
    by (simp add: mergeLayers_def Let_def)
next
  assume a: "2 \<le> fcard (selectedLayerIds s) \<and>
    (\<exists>l \<in> set (filter (selected s) (layers s)). natural_size (layer_url l) = None)"
  have s1: "saveToHistory (s\<lparr>isMerging := True\<rparr>) = (saveToHistory s)\<lparr>isMerging := True\<rparr>"
    by (simp add: saveToHistory_def Let_def)
  from a have stuck: "draw_layers natural_size (filter (selected s) (layers s)) c = None" for c
    by (intro draw_layers_stuck) simp
  from a obtain first others where f: "filter (selected s) (layers s) = first # others"
    by (cases "filter (selected s) (layers s)") auto
  from a have n: "\<not> fcard (selectedLayerIds s) < 2"
    by simp
  from stuck have stuck': "draw_layers natural_size (first # others) c = None" for c
    unfolding f .
  show "mergeLayers natural_size toDataURL now s =
        (Never_resumes, (saveToHistory s)\<lparr>isMerging := True\<rparr>)"
    unfolding mergeLayers_def Let_def s1 f
    by (simp add: n stuck' del: draw_layers.simps split: option.splits)
qed

section \<open>Retries\<close>

text \<open>What a pass that threw \<open>e\<close> leaves as the last error, and how long each call waits.\<close>

lemma detectObjects_loop_three:
  "detectObjects_loop f 3 None 0 [] =
     (case f 0 of
        Returned v \<Rightarrow> (Inr v, 1, [])
      | Threw e0 \<Rightarrow>
          (case f 1 of
             Returned v \<Rightarrow> (Inr v, 2, [retryDelay])
           | Threw e1 \<Rightarrow>
               (case f 2 of
                  Returned v \<Rightarrow> (Inr v, 3, [retryDelay, retryDelay])
                | Threw e2 \<Rightarrow>
                    (Inl (case e2 of Some m \<Rightarrow> m | None \<Rightarrow> ''An unexpected error occurred''),
                     3, [retryDelay, retryDelay]))))"
  by (simp add: detectObjects_loop.simps Let_def numeral_2_eq_2 split: attempt.splits)

lemma contentAwareFill_loop_three:
  "contentAwareFill_loop f 3 None 0 [] =
     (case f 0 of
        Returned v \<Rightarrow> (Inr v, 1, [])
      | Threw e0 \<Rightarrow>
          (case f 1 of
             Returned v \<Rightarrow> (Inr v, 2, [fill_delay e0])
           | Threw e1 \<Rightarrow>
               (case f 2 of
                  Returned v \<Rightarrow> (Inr v, 3, [fill_delay e0, fill_delay e1])
                | Threw e2 \<Rightarrow>
                    (Inl (case e2 of Some m \<Rightarrow> m | None \<Rightarrow> ''Failed to fill transparent areas''),
                     3, [fill_delay e0, fill_delay e1]))))"
  by (simp add: contentAwareFill_loop.simps Let_def fill_delay_def numeral_2_eq_2
      split: attempt.splits)

text \<open>
  C9, as stated, fails on the code: an invalid-token error, which is neither a model-loading
  nor a rate-limit error, does not propagate at once.  The call waits and makes a second pass,
  and here returns its value.
\<close>

theorem auth_error_is_retried:
  "\<not> is_error_with (Some invalid_token) ''loading'' \<and>
   \<not> is_error_with (Some invalid_token) ''Rate limit'' \<and>
   detectObjects valid_hf_key
       (\<lambda>k. if k = 0 then Threw (Some invalid_token) else Returned ''detections'') =
     (Inr ''detections'', 2, [1000])"
  by (simp add: detectObjects_def detectObjects_loop_three maxRetries_def hfValid_def
      valid_hf_key_def invalid_token_def is_error_with_def retryDelay_def)

text \<open>
  C9, amended.  With a valid key a call makes at most three passes (\<open>maxRetries\<close>).  A pass
  that throws is followed by a wait and another pass whatever the class of its error, until the
  third pass; only the error of the third pass propagates.  \<open>detectObjects\<close> always waits
  \<open>retryDelay\<close>; \<open>contentAwareFill\<close> waits twice as long after a rate-limit error.  An invalid
  key is the one failure that propagates without a pass.
\<close>

theorem every_error_class_is_retried:
  "detectObjects key f =
     (if \<not> hfValid key then
        (Inl (''Hugging Face API key is not configured or invalid. Please ensure it starts '' @
              ''with \"hf_\" and has inference permissions.''), 0, [])
      else
        (case f 0 of
           Returned v \<Rightarrow> (Inr v, 1, [])
         | Threw e0 \<Rightarrow>
             (case f 1 of
                Returned v \<Rightarrow> (Inr v, 2, [retryDelay])
              | Threw e1 \<Rightarrow>
                  (case f 2 of
                     Returned v \<Rightarrow> (Inr v, 3, [retryDelay, retryDelay])
                   | Threw e2 \<Rightarrow>
                       (Inl (case e2 of Some m \<Rightarrow> m
                             | None \<Rightarrow> ''An unexpected error occurred''),
                        3, [retryDelay, retryDelay]))))) \<and>
   contentAwareFill key' g =
     (if \<not> openaiValid key' then
        (Inl ''OpenAI API key is not configured or invalid. Please check your .env file.'', 0, [])
      else
        (case g 0 of
           Returned v \<Rightarrow> (Inr v, 1, [])
         | Threw e0 \<Rightarrow>
             (case g 1 of
                Returned v \<Rightarrow> (Inr v, 2, [fill_delay e0])
              | Threw e1 \<Rightarrow>
                  (case g 2 of
                     Returned v \<Rightarrow> (Inr v, 3, [fill_delay e0, fill_delay e1])
                   | Threw e2 \<Rightarrow>
                       (Inl (case e2 of Some m \<Rightarrow> m
                             | None \<Rightarrow> ''Failed to fill transparent areas''),
                        3, [fill_delay e0, fill_delay e1])))))"
  by (simp add: detectObjects_def contentAwareFill_def maxRetries_def detectObjects_loop_three
      contentAwareFill_loop_three)

theorem every_error_class_is_retried_witness:
  "detectObjects valid_hf_key (\<lambda>k. Threw (Some invalid_token)) =
     (Inl invalid_token, 3, [1000, 1000]) \<and>
   contentAwareFill valid_openai_key
       (\<lambda>k. if k < 2 then Threw (Some quota_exceeded) else Returned ''data:filled'') =
     (Inr ''data:filled'', 3, [1000, 1000])"
  using every_error_class_is_retried
          [of valid_hf_key "\<lambda>k. Threw (Some invalid_token)" valid_openai_key
              "\<lambda>k. if k < 2 then Threw (Some quota_exceeded) else Returned ''data:filled''"]
  by (simp add: hfValid_def openaiValid_def valid_hf_key_def valid_openai_key_def
      retryDelay_def fill_delay_def is_error_with_def quota_exceeded_def)

section \<open>Content-aware fill\<close>

text \<open>
  C8.  Whatever the collaborators do, \<open>handleContentAwareFill\<close> leaves the layer stack as it
  was; and unless the fill succeeds, the base image and the history are left as they were too
  (a failed local or AI fill, or no gaps found).
\<close>

theorem fill_only_replaces_base_image:
  "layers (snd (handleContentAwareFill env s)) = layers s \<and>
   (fst (handleContentAwareFill env s) \<noteq> Fill_success \<longrightarrow>
      uploadedImage (snd (handleContentAwareFill env s)) = uploadedImage s \<and>
      history (snd (handleContentAwareFill env s)) = history s \<and>
      historyIndex (snd (handleContentAwareFill env s)) = historyIndex s)"
  by (auto simp: handleContentAwareFill_def saveToHistory_def Let_def
      split: option.splits sum.splits prod.splits if_splits)


theorem fill_only_replaces_base_image_witness:
  "fst (handleContentAwareFill failing_ai one_layer_ai) = Fill_error quota_exceeded \<and>
   layers (snd (handleContentAwareFill failing_ai one_layer_ai)) = [plain_layer ''a''] \<and>
   uploadedImage (snd (handleContentAwareFill failing_ai one_layer_ai)) = Some ''data:base'' \<and>
   history (snd (handleContentAwareFill failing_ai one_layer_ai)) = history one_layer_ai"
proof -
  have failed: "fst (handleContentAwareFill failing_ai one_layer_ai) = Fill_error quota_exceeded"
    by (simp add: handleContentAwareFill_def failing_ai_def one_layer_ai_def upload_def
        initial_def hasTransparency_def by4_def byte_at_def below_def contentAwareFill_def
        contentAwareFill_loop_three maxRetries_def openaiValid_def valid_openai_key_def Let_def)
  then have "fst (handleContentAwareFill failing_ai one_layer_ai) \<noteq> Fill_success"
    by simp
  with fill_only_replaces_base_image [of failing_ai one_layer_ai] failed show ?thesis
    by (simp add: one_layer_ai_def upload_def initial_def)
qed


section \<open>Pixel loops\<close>

text \<open>
  A loop over pixels that writes only into the block of its own pixel: the byte at an offset is
  what the one pass for its pixel makes of it.
\<close>

lemma pixels_keys: "map (\<lambda>(x, y). y * w + x) (pixels w h) = [0..<h * w]"
proof (induction h)
  case 0
  then show ?case by (simp add: pixels_def)
next
  case (Suc h)
  have row: "map (\<lambda>x. h * w + x) [0..<w] = [h * w..<h * w + w]"
    using map_add_upt [of "h * w" w] by (simp add: add.commute)
  have "map (\<lambda>(x, y). y * w + x) (pixels w (Suc h)) =
        map (\<lambda>(x, y). y * w + x) (pixels w h) @ map (\<lambda>x. h * w + x) [0..<w]"
    by (simp add: pixels_def comp_def)
  also have "\<dots> = [0..<h * w] @ [h * w..<h * w + w]"
    by (simp add: Suc.IH row)
  also have "\<dots> = [0..<Suc h * w]"
    using upt_add_eq_append [of 0 "h * w" w] by (simp add: add.commute)
  finally show ?case .
qed

lemma set_pixels: "set (pixels w h) = {(x, y). x < w \<and> y < h}"
  by (auto simp: pixels_def)

lemma fold_length:
  assumes "\<And>p d. length (step p d) = length d"
  shows "length (fold step ps d) = length d"
  using assms by (induction ps arbitrary: d) simp_all

lemma fold_other:
  assumes "\<And>p d. p \<in> set ps \<Longrightarrow> step p d ! j = d ! j"
  shows "fold step ps d ! j = d ! j"
  using assms by (induction ps arbitrary: d) simp_all

lemma fold_hit:
  assumes len: "\<And>q d. length (step q d) = length d"
    and hit: "\<And>d. j < length d \<Longrightarrow> step p d ! j = g (d ! j)"
    and "p \<in> set ps" and "distinct (map key ps)" and "j < length d"
    and "\<And>q d. q \<in> set ps \<Longrightarrow> key q \<noteq> key p \<Longrightarrow> step q d ! j = d ! j"
    and "\<And>q. q \<in> set ps \<Longrightarrow> key q = key p \<Longrightarrow> q = p"
  shows "fold step ps d ! j = g (d ! j)"
  using assms(3-)
proof (induction ps arbitrary: d)
  case Nil
  then show ?case by simp
next
  case (Cons q qs)
  show ?case
  proof (cases "q = p")
    case True
    with Cons.prems have "\<And>r. r \<in> set qs \<Longrightarrow> key r \<noteq> key p"
      by auto
    with Cons.prems(4) have "\<And>r d. r \<in> set qs \<Longrightarrow> step r d ! j = d ! j"
      by simp
    then have "fold step qs (step p d) ! j = step p d ! j"
      by (rule fold_other)
    with True Cons.prems hit show ?thesis by simp
  next
    case False
    with Cons.prems have "key q \<noteq> key p" by auto
    with Cons.prems(4) have eq: "step q d ! j = d ! j" by simp
    from False Cons.prems have "p \<in> set qs" "distinct (map key qs)" "j < length (step q d)"
      by (auto simp: len)
    from Cons.IH [OF this] Cons.prems(4,5) eq show ?thesis by simp
  qed
qed

lemma length_put4: "length (put4 xs i p) = length xs"
  by (cases p) (simp add: put4_def)

lemma put4_other: "j div 4 \<noteq> k \<Longrightarrow> put4 xs (k * 4) p ! j = xs ! j"
  by (cases p) (auto simp: put4_def nth_list_update)

lemma put4_hit:
  "c < 4 \<Longrightarrow> k * 4 + c < length xs \<Longrightarrow>
   put4 xs (k * 4) (r, g, b, a) ! (k * 4 + c) = [r, g, b, a] ! c"
  by (auto simp: put4_def nth_list_update nth_Cons')

lemma pixel_index_bound:
  fixes x y w h c :: nat
  assumes "x < w" and "y < h" and "c < 4"
  shows "(y * w + x) * 4 + c < 4 * w * h"
proof -
  from assms have "y * w + x < Suc y * w" by simp
  also from assms have "\<dots> \<le> h * w" by (intro mult_le_mono1) simp
  finally have "y * w + x < h * w" .
  then have "(y * w + x) * 4 + 4 \<le> (h * w) * 4" by simp
  with assms show ?thesis by (simp add: mult.commute mult.left_commute)
qed

lemma pixel_key_inj:
  fixes x y w x' y' :: nat
  assumes "x < w" and "x' < w" and "y * w + x = y' * w + x'"
  shows "x = x' \<and> y = y'"
proof -
  from assms(3) have "(y * w + x) mod w = (y' * w + x') mod w"
    by (rule arg_cong)
  then have "x mod w = x' mod w" by simp
  with assms(1,2) have x: "x = x'" by simp
  with assms(3) have "y * w = y' * w" by simp
  with assms(1) x show ?thesis by simp
qed

lemma pixels_key_unique:
  assumes "q \<in> set (pixels w h)" and "x < w"
    and "(case q of (a, b) \<Rightarrow> b * w + a) = y * w + x"
  shows "q = (x, y)"
proof -
  obtain a b where q: "q = (a, b)" by (cases q)
  with assms have "a < w" and "b * w + a = y * w + x"
    by (simp_all add: set_pixels)
  from pixel_key_inj [OF this(1) assms(2) this(2)] q show ?thesis by simp
qed

lemma block_div: "c < 4 \<Longrightarrow> (k * 4 + c) div 4 = (k :: nat)"
  by simp

lemma wf_dilate_step:
  "width (dilate_step cur) = width cur \<and> height (dilate_step cur) = height cur \<and>
   length (data (dilate_step cur)) = 4 * width cur * height cur"
proof -
  have "length (fold (dilate_pixel cur) ps d) = length d" for ps d
    by (rule fold_length) (simp add: dilate_pixel_def Let_def length_put4 split: prod.splits)
  then show ?thesis
    by (simp add: dilate_step_def new_ImageData_def Let_def)
qed

lemma dilate_step_channel:
  assumes "x < width cur" and "y < height cur" and "c < 4"
  shows "channel (dilate_step cur) x y c =
           [store_byte (maxValue cur x y), store_byte (maxValue cur x y),
            store_byte (maxValue cur x y), 255] ! c"
proof -
  let ?w = "width cur" and ?h = "height cur"
  let ?key = "\<lambda>(x, y). y * ?w + x"
  let ?j = "(y * ?w + x) * 4 + c"
  let ?m = "store_byte (maxValue cur x y)"
  let ?d0 = "replicate (4 * ?w * ?h) (0 :: u8)"
  have j: "?j < length ?d0"
    using pixel_index_bound [OF assms] by (simp only: length_replicate)
  have "fold (dilate_pixel cur) (pixels ?w ?h) ?d0 ! ?j = (\<lambda>old. [?m, ?m, ?m, 255] ! c) (?d0 ! ?j)"
  proof (rule fold_hit [where key = ?key and p = "(x, y)"])
    show "length (dilate_pixel cur q d) = length d" for q d
      by (simp add: dilate_pixel_def Let_def length_put4 split: prod.splits)
    show "dilate_pixel cur q d ! ?j = d ! ?j"
      if "q \<in> set (pixels ?w ?h)" and "?key q \<noteq> ?key (x, y)" for q d
      using that(2) assms
      by (cases q) (simp add: dilate_pixel_def Let_def put4_other block_div
          del: distrib_right_numeral)
    show "dilate_pixel cur (x, y) d ! ?j = [?m, ?m, ?m, 255] ! c" if "?j < length d" for d
      using that assms by (simp add: dilate_pixel_def Let_def put4_hit del: distrib_right_numeral)
    show "q = (x, y)" if "q \<in> set (pixels ?w ?h)" and "?key q = ?key (x, y)" for q
      using that assms by (intro pixels_key_unique) simp_all
    show "(x, y) \<in> set (pixels ?w ?h)"
      using assms by (simp add: set_pixels)
    show "distinct (map ?key (pixels ?w ?h))"
      by (simp add: pixels_keys)
    show "?j < length ?d0" by (rule j)
  qed
  then show ?thesis
    by (simp add: channel_def dilate_step_def new_ImageData_def Let_def
        del: distrib_right_numeral)
qed


lemma in_grid:
  "p \<in> set (concat (map (\<lambda>dy. concat (map (\<lambda>dx. if P dx dy then [f dx dy] else []) xs)) ys)) \<longleftrightarrow>
     (\<exists>dy \<in> set ys. \<exists>dx \<in> set xs. P dx dy \<and> p = f dx dy)"
  by auto

lemma in_neighbourhood:
  "(nx, ny) \<in> set (neighbourhood w h x y) \<longleftrightarrow>
     (\<exists>dy \<in> set [- 1, 0, 1]. \<exists>dx \<in> set [- 1, 0, 1].
        (0 \<le> int x + dx \<and> int x + dx < int w \<and> 0 \<le> int y + dy \<and> int y + dy < int h) \<and>
        (nx, ny) = (nat (int x + dx), nat (int y + dy)))"
  unfolding neighbourhood_def Let_def by (rule in_grid)

lemma set_neighbourhood: "set (neighbourhood w h x y) = around w h x y"
proof (intro set_eqI iffI)
  fix p
  assume p: "p \<in> around w h x y"
  obtain nx ny where q: "p = (nx, ny)" by (cases p)
  with p have b: "nx < w" "ny < h"
    and dx: "int nx - int x \<in> {- 1, 0, 1}" and dy: "int ny - int y \<in> {- 1, 0, 1}"
    by (simp_all add: around_def)
  have "\<exists>dy \<in> set [- 1, 0, 1]. \<exists>dx \<in> set [- 1, 0, 1].
        (0 \<le> int x + dx \<and> int x + dx < int w \<and> 0 \<le> int y + dy \<and> int y + dy < int h) \<and>
        (nx, ny) = (nat (int x + dx), nat (int y + dy))"
  proof (rule bexI [where x = "int ny - int y"], rule bexI [where x = "int nx - int x"])
    show "(0 \<le> int x + (int nx - int x) \<and> int x + (int nx - int x) < int w \<and>
          0 \<le> int y + (int ny - int y) \<and> int y + (int ny - int y) < int h) \<and>
          (nx, ny) = (nat (int x + (int nx - int x)), nat (int y + (int ny - int y)))"
      using b by simp
    show "int nx - int x \<in> set [- 1, 0, 1]" using dx by simp
    show "int ny - int y \<in> set [- 1, 0, 1]" using dy by simp
  qed
  then show "p \<in> set (neighbourhood w h x y)"
    unfolding q by (simp only: in_neighbourhood)
next
  fix p
  assume p: "p \<in> set (neighbourhood w h x y)"
  obtain nx ny where q: "p = (nx, ny)" by (cases p)
  from p obtain dy dx where d: "dy \<in> set [- 1, 0, 1 :: int]" "dx \<in> set [- 1, 0, 1 :: int]"
    and r: "0 \<le> int x + dx" "int x + dx < int w" "0 \<le> int y + dy" "int y + dy < int h"
    and n: "nx = nat (int x + dx)" "ny = nat (int y + dy)"
    unfolding q in_neighbourhood by blast
  from r n have "int nx - int x = dx" and "int ny - int y = dy" and "nx < w" and "ny < h"
    by simp_all
  with d show "p \<in> around w h x y"
    unfolding q around_def by auto
qed

lemma fold_max_byte:
  assumes "\<And>p. p \<in> set ps \<Longrightarrow> rd p = Some (v p)"
  shows "fold (\<lambda>p m. max_byte m (rd p)) ps (Some a) = Some (fold max (map v ps) a)"
  using assms
proof (induction ps arbitrary: a)
  case Nil
  then show ?case by simp
next
  case (Cons p ps)
  then show ?case
    by (simp add: max_byte_def max.commute)
qed

lemma Max_with_zero:
  fixes A :: "u8 set"
  assumes "finite A" and "A \<noteq> {}"
  shows "Max (insert 0 A) = Max A"
  using assms by (simp add: max_def)

lemma maxValue_Max:
  assumes "wf_image cur" and "x < width cur" and "y < height cur"
  shows "maxValue cur x y =
           Some (Max ((\<lambda>(nx, ny). channel cur nx ny 0) ` around (width cur) (height cur) x y))"
proof -
  let ?w = "width cur" and ?h = "height cur"
  let ?ps = "neighbourhood ?w ?h x y"
  let ?v = "\<lambda>(nx, ny). channel cur nx ny 0"
  have rd: "(case p of (nx, ny) \<Rightarrow> byte_at (data cur) ((ny * ?w + nx) * 4)) = Some (?v p)"
    if "p \<in> set ?ps" for p
  proof -
    obtain nx ny where q: "p = (nx, ny)" by (cases p)
    with that have "nx < ?w" "ny < ?h"
      by (simp_all add: set_neighbourhood around_def)
    from pixel_index_bound [OF this, of 0] assms(1) q show ?thesis
      by (simp add: byte_at_def channel_def wf_image_def del: distrib_right_numeral)
  qed
  have step: "(\<lambda>(nx, ny) m. max_byte m (byte_at (data cur) ((ny * ?w + nx) * 4))) =
      (\<lambda>p m. max_byte m (case p of (nx, ny) \<Rightarrow> byte_at (data cur) ((ny * ?w + nx) * 4)))"
    by (auto simp: fun_eq_iff)
  have "maxValue cur x y = Some (fold max (map ?v ?ps) 0)"
    unfolding maxValue_def step by (rule fold_max_byte) (rule rd)
  also have "fold max (map ?v ?ps) 0 = Max (set (0 # map ?v ?ps))"
    by (simp only: Max.set_eq_fold)
  also have "\<dots> = Max (insert 0 (?v ` around ?w ?h x y))"
    by (simp add: set_neighbourhood)
  also have "\<dots> = Max (?v ` around ?w ?h x y)"
  proof (rule Max_with_zero)
    have "around ?w ?h x y \<subseteq> {..<?w} \<times> {..<?h}"
      by (auto simp: around_def)
    then have "finite (around ?w ?h x y)"
      by (rule finite_subset) simp
    then show "finite (?v ` around ?w ?h x y)" by simp
    from assms have "(x, y) \<in> around ?w ?h x y"
      by (simp add: around_def)
    then show "?v ` around ?w ?h x y \<noteq> {}" by blast
  qed
  finally show ?thesis .
qed

lemma dilate_loop_Suc: "dilate_loop (Suc n) cur = dilate_step (dilate_loop n cur)"
  by (induction n arbitrary: cur) simp_all

lemma wf_dilate_loop:
  "wf_image cur \<Longrightarrow> wf_image (dilate_loop n cur) \<and>
     width (dilate_loop n cur) = width cur \<and> height (dilate_loop n cur) = height cur"
proof (induction n)
  case 0
  then show ?case by simp
next
  case (Suc n)
  then show ?case
    using wf_dilate_step [of "dilate_loop n cur"]
    by (simp add: dilate_loop_Suc wf_image_def del: dilate_loop.simps)
qed

section \<open>Dilation\<close>

text \<open>
  C10.  For a well-formed image and at least one iteration, each pixel of the result of
  \<open>dilateMask\<close> has red, green and blue equal to the maximum red value over the 3 by 3
  neighbourhood (cut at the image bounds) in the image of the previous iteration, which for
  the first iteration is the input itself, and alpha 255.  Only the red channel of the input
  matters: an image \<open>img'\<close> with the same size and the same red channel gives the same result,
  whatever its green, blue and alpha channels hold.
\<close>

theorem dilateMask_takes_maximum_of_red:
  assumes "wf_image img" and "1 \<le> iterations"
    and "x < width img" and "y < height img"
    and "wf_image img'" and "width img' = width img" and "height img' = height img"
    and "\<forall>x < width img. \<forall>y < height img. channel img' x y 0 = channel img x y 0"
  shows "channel (dilateMask img iterations) x y 0 =
           Max ((\<lambda>(nx, ny).
                   channel (if iterations = 1 then img else dilateMask img (iterations - 1))
                     nx ny 0) `
                  around (width img) (height img) x y) \<and>
         channel (dilateMask img iterations) x y 1 = channel (dilateMask img iterations) x y 0 \<and>
         channel (dilateMask img iterations) x y 2 = channel (dilateMask img iterations) x y 0 \<and>
         channel (dilateMask img iterations) x y 3 = 255 \<and>
         dilateMask img' iterations = dilateMask img iterations"
proof -
  obtain n where n: "nat iterations = Suc n" and n': "nat (iterations - 1) = n"
    using assms(2) by (cases "nat iterations") auto
  let ?prev = "dilateMask img (iterations - 1)"
  have copy: "\<lparr>width = width r, height = height r, data = data r\<rparr> = r" for r :: imageData
    by simp
  have first: "(if iterations = 1 then img else ?prev) = ?prev"
    by (simp add: dilateMask_def)
  have out: "dilateMask img iterations = dilate_step ?prev"
    by (simp add: dilateMask_def n n' dilate_loop_Suc del: dilate_loop.simps)
  have prev: "wf_image ?prev \<and> width ?prev = width img \<and> height ?prev = height img"
    using wf_dilate_loop [OF assms(1), of n] by (simp add: dilateMask_def n' copy)
  then have x: "x < width ?prev" and y: "y < height ?prev"
    using assms(3,4) by simp_all
  have m: "maxValue ?prev x y =
      Some (Max ((\<lambda>(nx, ny). channel ?prev nx ny 0) ` around (width img) (height img) x y))"
    using maxValue_Max [OF _ x y] prev by simp
  have ch: "channel (dilate_step ?prev) x y c =
      [store_byte (maxValue ?prev x y), store_byte (maxValue ?prev x y),
       store_byte (maxValue ?prev x y), 255] ! c" if "c < 4" for c
    using x y that by (rule dilate_step_channel)
  have red_only: "dilate_step img' = dilate_step img"
  proof -
    have mv: "maxValue img' a b = maxValue img a b" if "a < width img" "b < height img" for a b
    proof -
      have "(\<lambda>(nx, ny). channel img' nx ny 0) ` around (width img) (height img) a b =
            (\<lambda>(nx, ny). channel img nx ny 0) ` around (width img) (height img) a b"
        using assms(8) by (intro image_cong) (auto simp: around_def)
      then show ?thesis
        using maxValue_Max [OF assms(1), of a b] maxValue_Max [OF assms(5), of a b] that assms(6,7)
        by simp
    qed
    have "fold (dilate_pixel img') (pixels (width img) (height img)) d =
          fold (dilate_pixel img) (pixels (width img) (height img)) d" for d
    proof (rule fold_cong [OF refl refl])
      fix p
      assume p: "p \<in> set (pixels (width img) (height img))"
      obtain a b where q: "p = (a, b)" by (cases p)
      with p have "a < width img" and "b < height img"
        by (simp_all add: set_pixels)
      then have "maxValue img' a b = maxValue img a b" by (rule mv)
      then show "dilate_pixel img' p = dilate_pixel img p"
        by (simp add: q dilate_pixel_def assms(6) fun_eq_iff)
    qed
    then show ?thesis
      by (simp add: dilate_step_def assms(6,7) Let_def)
  qed
  have "dilateMask img' iterations = dilate_loop n (dilate_step img')"
    by (simp add: dilateMask_def n copy)
  also have "\<dots> = dilateMask img iterations"
    by (simp add: dilateMask_def n copy red_only)
  finally have same: "dilateMask img' iterations = dilateMask img iterations" .
  from ch [of 0] ch [of 1] ch [of 2] ch [of 3] m same show ?thesis
    unfolding first by (simp add: out store_byte_def)
qed


theorem dilateMask_takes_maximum_of_red_witness:
  "wf_image corner4 \<and> wf_image corner4' \<and>
   map (\<lambda>(x, y). channel corner4' x y 0) (pixels 4 4) =
     map (\<lambda>(x, y). channel corner4 x y 0) (pixels 4 4) \<and>
   channel corner4 0 0 0 = 200 \<and> channel corner4 3 3 0 = 10 \<and>
   channel (dilateMask corner4 1) 1 1 0 = 200 \<and>
   channel (dilateMask corner4 1) 1 1 1 = 200 \<and>
   channel (dilateMask corner4 1) 1 1 2 = 200 \<and>
   channel (dilateMask corner4 1) 1 1 3 = 255 \<and>
   channel (dilateMask corner4 1) 2 1 0 = 10 \<and>
   channel (dilateMask corner4 2) 2 2 0 = 200 \<and>
   channel (dilateMask corner4 2) 3 3 0 = 10 \<and>
   dilateMask corner4' 1 = dilateMask corner4 1 \<and>
   dilateMask corner4' 2 = dilateMask corner4 2"
proof -
  have wf: "wf_image corner4" "wf_image corner4'"
    by code_simp+
  have dims: "width corner4 = 4" "height corner4 = 4" "width corner4' = 4" "height corner4' = 4"
    by (simp_all add: corner4_def corner4'_def image_of_def)
  have reds: "map (\<lambda>(x, y). channel corner4' x y 0) (pixels 4 4) =
     map (\<lambda>(x, y). channel corner4 x y 0) (pixels 4 4)"
    by code_simp
  have red: "\<forall>x < width corner4. \<forall>y < height corner4.
      channel corner4' x y 0 = channel corner4 x y 0"
  proof (intro allI impI)
    fix x y
    assume "x < width corner4" and "y < height corner4"
    then have "(x, y) \<in> set (pixels 4 4)"
      by (simp add: set_pixels dims)
    with reds show "channel corner4' x y 0 = channel corner4 x y 0"
      by (auto simp: map_eq_conv)
  qed
  have src: "channel corner4 0 0 0 = 200" "channel corner4 3 3 0 = 10"
    by code_simp+
  have m1: "Max ((\<lambda>(nx, ny). channel corner4 nx ny 0) ` set (neighbourhood 4 4 1 1)) = 200"
    "Max ((\<lambda>(nx, ny). channel corner4 nx ny 0) ` set (neighbourhood 4 4 2 1)) = 10"
    by code_simp+
  have m2: "Max ((\<lambda>(nx, ny). channel (dilateMask corner4 1) nx ny 0) `
               set (neighbourhood 4 4 2 2)) = 200"
    "Max ((\<lambda>(nx, ny). channel (dilateMask corner4 1) nx ny 0) `
               set (neighbourhood 4 4 3 3)) = 10"
    by code_simp+
  have b: "(1 :: nat) < width corner4" "(2 :: nat) < width corner4" "(3 :: nat) < width corner4"
    "(1 :: nat) < height corner4" "(2 :: nat) < height corner4" "(3 :: nat) < height corner4"
    "(1 :: int) \<le> 1" "(1 :: int) \<le> 2"
    by (simp_all add: dims)
  have same: "width corner4' = width corner4" "height corner4' = height corner4"
    by (simp_all add: dims)
  note w = wf(2) same red
  note t = dilateMask_takes_maximum_of_red [OF wf(1)]
  from t [OF b(7) b(1) b(4) w] t [OF b(7) b(2) b(4) w] t [OF b(8) b(2) b(5) w]
    t [OF b(8) b(3) b(6) w]
  show ?thesis
    using wf reds src m1 m2 by (simp add: dims set_neighbourhood)
qed

section \<open>Zero parameters\<close>

lemmas float_eval = num_def fl_def fl_pos_def floor_log2_def round_half_even_def numer_def
  denom_def bitlen_nat.simps normal.simps Let_def

lemma jmul_NaN: "jmul x NaN = NaN"
  by (cases x) simp_all

lemma jadd_NaN: "jadd x NaN = NaN"
  by (cases x) simp_all

lemma num_0: "num 0 = Fin 0 0"
  by (simp add: num_def fl_def)

lemma num_2: "num 2 = Fin 1 1"
  by (simp add: float_eval)

lemma num_3: "num 3 = Fin 3 0"
  by (simp add: float_eval)

text \<open>At radius 0 the one weight is \<open>exp (-0 / 0)\<close>, NaN, and every sum it enters stores 0.\<close>

lemma make_kernel_zero: "make_kernel ex 0 = [NaN]"
  by (simp add: make_kernel_def gauss_def num_0 num_2 num_3 fl_def numer_def denom_def Let_def)

lemma convolve_zero: "convolve [NaN] 0 src idx = (0, 0, 0, 0)"
  by (simp add: convolve_def weight_at_def jmul_NaN jadd_NaN)

lemma update_replicate: "(replicate n v)[i := v] = replicate n v"
  by (induction n arbitrary: i) (simp_all split: nat.splits)

lemma replicate_4: "replicate 4 v = [v, v, v, v]"
  by (simp add: numeral_eq_Suc)

lemma put4_zero: "put4 (replicate n 0) i (0, 0, 0, 0) = replicate n 0"
  by (simp add: put4_def update_replicate)

lemma fold_put4_zero:
  "fold (\<lambda>(x, y) t. put4 t (k x y) (0, 0, 0, 0)) ps (replicate n 0) = replicate n 0"
  by (induction ps) (simp_all add: put4_zero split: prod.splits)

lemma applyGaussianBlur_zero_radius:
  "applyGaussianBlur ex img 0 = new_ImageData (width img) (height img)"
  by (simp add: applyGaussianBlur_def make_kernel_zero convolve_zero fold_put4_zero
      new_ImageData_def Let_def)

text \<open>
  C7, as stated, fails on the code for the blur: \<open>applyGaussianBlur\<close> with radius 0 turns a
  white opaque pixel into a transparent black one.
\<close>

theorem blur_with_radius_zero_is_not_identity:
  "applyGaussianBlur exp_unused white_pixel 0 = \<lparr>width = 1, height = 1, data = [0, 0, 0, 0]\<rparr> \<and>
   applyGaussianBlur exp_unused white_pixel 0 \<noteq> white_pixel"
  by (simp add: applyGaussianBlur_zero_radius new_ImageData_def white_pixel_def replicate_4)

text \<open>
  C7, amended.  \<open>dilateMask\<close> with 0 iterations returns a copy equal to its input.  A zero blur
  radius is a no-op where the mask is built: \<open>createImprovedMask\<close> calls \<open>applyGaussianBlur\<close>
  only for a positive \<open>featherRadius\<close> and \<open>dilateMask\<close> only for a positive \<open>expandPixels\<close>,
  so with \<open>featherRadius = 0\<close> the result is the dilated binary mask, unblurred, and with both
  parameters 0 the binary mask itself.
\<close>

theorem zero_parameters_leave_mask_unchanged:
  "dilateMask m 0 = m \<and>
   createImprovedMask ex img 0 expandPixels = dilateMask (binary_mask img) expandPixels \<and>
   createImprovedMask ex img 0 0 = binary_mask img"
proof -
  have copy: "dilateMask r n = r" if "n \<le> 0" for r :: imageData and n
    using that by (simp add: dilateMask_def)
  show ?thesis
    by (cases "0 < expandPixels") (simp_all add: createImprovedMask_def copy)
qed


section \<open>Binary64 rounding in the coordinate remap\<close>

text \<open>
  The error of one rounding, and what it leaves of \<^verbatim>\<open>Math.floor((x / W) * mw)\<close>: the quotient and
  the product are each rounded once, so the floor is \<open>\<lfloor>x * mw / W\<rfloor>\<close> except, possibly, where
  \<open>x * mw / W\<close> is a whole number, where the product can fall just below it.
\<close>

lemma bitlen_bounds:
  "0 < n \<Longrightarrow> n < 2 ^ bitlen_nat n \<and> 2 ^ bitlen_nat n \<le> 2 * n"
proof (induction n rule: bitlen_nat.induct)
  case (1 n)
  show ?case
  proof (cases "n div 2 = 0")
    case True
    with 1(2) have "n = 1" by auto
    then show ?thesis by (simp add: bitlen_nat.simps)
  next
    case False
    then have "0 < n div 2" by simp
    with 1(1) have ih: "n div 2 < 2 ^ bitlen_nat (n div 2) \<and> 2 ^ bitlen_nat (n div 2) \<le> 2 * (n div 2)"
      using 1(2) by simp
    have b: "bitlen_nat n = Suc (bitlen_nat (n div 2))"
      using 1(2) by (subst bitlen_nat.simps) simp
    from ih show ?thesis
      unfolding b by (auto simp: power_Suc) 
  qed
qed

lemma powi2_add: "(2 :: real) powi a * 2 powi b = 2 powi (a + b)"
  by (simp add: power_int_add)

lemma bitlen_real:
  assumes "0 < n"
  shows "real n < 2 powi int (bitlen_nat n)" and "2 powi (int (bitlen_nat n) - 1) \<le> real n"
proof -
  from bitlen_bounds [OF assms] have a: "n < 2 ^ bitlen_nat n" and b: "2 ^ bitlen_nat n \<le> 2 * n"
    by simp_all
  from a have "real n < real (2 ^ bitlen_nat n)" by (simp only: of_nat_less_iff)
  then show "real n < 2 powi int (bitlen_nat n)" by (simp add: power_int_def)
  from b have "real (2 ^ bitlen_nat n) \<le> real (2 * n)" by (simp only: of_nat_le_iff)
  then have "2 powi int (bitlen_nat n) \<le> 2 * real n" by (simp add: power_int_def)
  moreover have "(2 :: real) powi int (bitlen_nat n) = 2 * 2 powi (int (bitlen_nat n) - 1)"
    by (simp add: power_int_diff)
  ultimately show "2 powi (int (bitlen_nat n) - 1) \<le> real n" by simp
qed

lemma floor_log2_test:
  assumes "0 < d"
  shows "(if 0 \<le> k then d * 2 ^ nat k \<le> n else d \<le> n * 2 ^ nat (- k)) \<longleftrightarrow>
         real d * 2 powi k \<le> real n"
proof (cases "0 \<le> k")
  case True
  then have "(2 :: real) powi k = 2 ^ nat k" by (simp add: power_int_def)
  moreover have "d * 2 ^ nat k \<le> n \<longleftrightarrow> real (d * 2 ^ nat k) \<le> real n"
    by (simp only: of_nat_le_iff)
  ultimately show ?thesis using True by simp
next
  case False
  then have p: "(2 :: real) powi k = inverse (2 ^ nat (- k))"
    by (simp add: power_int_def power_one_over inverse_eq_divide)
  have "d \<le> n * 2 ^ nat (- k) \<longleftrightarrow> real d \<le> real (n * 2 ^ nat (- k))"
    by (simp only: of_nat_le_iff)
  also have "\<dots> \<longleftrightarrow> real d * 2 powi k \<le> real n"
    unfolding p by (simp add: field_simps)
  finally show ?thesis using False by simp
qed

lemma floor_log2_bounds:
  assumes "0 < n" and "0 < d"
  shows "real d * 2 powi floor_log2 n d \<le> real n"
    and "real n < real d * 2 powi (floor_log2 n d + 1)"
proof -
  let ?k = "int (bitlen_nat n) - int (bitlen_nat d)"
  have n1: "real n < 2 powi int (bitlen_nat n)" and n2: "2 powi (int (bitlen_nat n) - 1) \<le> real n"
    using bitlen_real [OF assms(1)] by simp_all
  have d1: "real d < 2 powi int (bitlen_nat d)" and d2: "2 powi (int (bitlen_nat d) - 1) \<le> real d"
    using bitlen_real [OF assms(2)] by simp_all
  have fl: "floor_log2 n d = (if real d * 2 powi ?k \<le> real n then ?k else ?k - 1)"
    unfolding floor_log2_def Let_def floor_log2_test [OF assms(2)] by simp
  have pos: "(0 :: real) < 2 powi j" for j by simp
  have up: "real n < real d * 2 powi (?k + 1)"
  proof -
    have "real n < 2 powi int (bitlen_nat n)" by (rule n1)
    also have "\<dots> = 2 powi (int (bitlen_nat d) - 1) * 2 powi (?k + 1)"
      by (simp only: powi2_add) simp
    also have "\<dots> \<le> real d * 2 powi (?k + 1)"
      using d2 by (intro mult_right_mono) simp_all
    finally show ?thesis .
  qed
  have low: "real d * 2 powi (?k - 1) \<le> real n"
  proof -
    have "real d * 2 powi (?k - 1) \<le> 2 powi int (bitlen_nat d) * 2 powi (?k - 1)"
      using d1 by (intro mult_right_mono) simp_all
    also have "\<dots> = 2 powi (int (bitlen_nat n) - 1)"
      by (simp only: powi2_add) simp
    also have "\<dots> \<le> real n" by (rule n2)
    finally show ?thesis .
  qed
  show "real d * 2 powi floor_log2 n d \<le> real n"
    using low by (simp add: fl)
  show "real n < real d * 2 powi (floor_log2 n d + 1)"
    using up by (auto simp: fl not_le)
qed

lemma round_half_even_bound:
  assumes "0 < d"
  shows "\<bar>real (round_half_even n d) - real n / real d\<bar> \<le> 1 / 2"
proof -
  let ?q = "n div d" and ?r = "n mod d"
  have n: "real n = real ?q * real d + real ?r"
    by (metis of_nat_add of_nat_mult div_mult_mod_eq)
  have r: "real ?r < real d" using assms by simp
  have nd: "real n / real d = real ?q + real ?r / real d"
    using assms by (simp add: n field_simps)
  have c: "2 * ?r < d \<longleftrightarrow> 2 * real ?r < real d" "d < 2 * ?r \<longleftrightarrow> real d < 2 * real ?r"
    by (metis of_nat_less_iff of_nat_mult of_nat_numeral)+
  have frac: "0 \<le> real ?r / real d" "real ?r / real d < 1"
    using assms r by simp_all
  consider "2 * real ?r < real d" | "real d < 2 * real ?r" | "2 * real ?r = real d"
    by linarith
  then show ?thesis
  proof cases
    case 1
    then have "round_half_even n d = ?q" by (simp add: round_half_even_def Let_def c)
    moreover from 1 assms have "real ?r / real d \<le> 1 / 2" by (simp add: field_simps)
    ultimately show ?thesis using frac by (simp add: nd)
  next
    case 2
    then have "round_half_even n d = ?q + 1" by (simp add: round_half_even_def Let_def c)
    moreover from 2 assms have "1 / 2 \<le> real ?r / real d" by (simp add: field_simps)
    ultimately show ?thesis using frac by (simp add: nd)
  next
    case 3
    then have h: "real ?r / real d = 1 / 2" using assms by (simp add: field_simps)
    from 3 have "round_half_even n d = ?q \<or> round_half_even n d = ?q + 1"
      by (simp add: round_half_even_def Let_def c)
    moreover from h have "real n / real d = real ?q + 1 / 2" by (simp only: nd)
    ultimately show ?thesis by auto
  qed
qed

lemma normal_int:
  "0 < m \<Longrightarrow> \<exists>m' e'. normal m e = Fin (int m') e' \<and> e \<le> e' \<and> 0 < m' \<and> m' * 2 ^ nat (e' - e) = m"
proof (induction m e rule: normal.induct)
  case (1 m e)
  show ?case
  proof (cases "even m")
    case False
    with 1(2) have "normal m e = Fin (int m) e" by (subst normal.simps) simp
    with 1(2) show ?thesis by (intro exI [of _ m] exI [of _ e]) simp
  next
    case True
    with 1(2) have pos: "0 < m div 2" by (auto elim: evenE)
    from True 1(2) have n: "normal m e = normal (m div 2) (e + 1)" by (subst normal.simps) simp
    from 1(1) [OF _ True pos] 1(2) obtain m' e' where
      ih: "normal (m div 2) (e + 1) = Fin (int m') e'" "e + 1 \<le> e'" "0 < m'"
        "m' * 2 ^ nat (e' - (e + 1)) = m div 2"
      by auto
    have "nat (e' - e) = Suc (nat (e' - (e + 1)))" using ih(2) by simp
    then have "m' * 2 ^ nat (e' - e) = 2 * (m div 2)" using ih(4) by simp
    also have "\<dots> = m" using True by simp
    finally show ?thesis using ih n by (intro exI [of _ m'] exI [of _ e']) simp
  qed
qed

lemma normal_real:
  "\<exists>m' e'. normal m e = Fin m' e' \<and> 0 \<le> m' \<and> of_int m' * 2 powi e' = real m * 2 powi e"
proof (cases "m = 0")
  case True
  then show ?thesis by (simp add: normal.simps)
next
  case False
  then have "0 < m" by simp
  from normal_int [OF this, of e] obtain m' e' where
    n: "normal m e = Fin (int m') e'" "e \<le> e'" "m' * 2 ^ nat (e' - e) = m"
    by auto
  have "real m * 2 powi e = real m' * 2 ^ nat (e' - e) * 2 powi e"
    using n(3) by (metis of_nat_mult of_nat_numeral of_nat_power)
  also have "(2 :: real) ^ nat (e' - e) = 2 powi (e' - e)"
    using n(2) by (simp add: power_int_def)
  also have "real m' * 2 powi (e' - e) * 2 powi e = real m' * 2 powi e'"
    by (simp add: power_int_add [symmetric] mult.assoc)
  finally show ?thesis using n(1) by (intro exI [of _ "int m'"] exI [of _ e']) simp
qed

lemma numer_denom: "real_of_int (numer m e) / real (denom e) = of_int m * 2 powi e"
  by (simp add: numer_def denom_def power_int_def field_simps)


lemma fl_pos_error:
  assumes "0 < n" and "0 < d" and "- 1022 \<le> floor_log2 n d" and "floor_log2 n d < 1023"
  shows "\<exists>m e. fl_pos n d = Fin m e \<and> 0 \<le> m \<and>
           \<bar>of_int m * 2 powi e - real n / real d\<bar> \<le> 2 powi (floor_log2 n d - 53)"
proof -
  let ?k = "floor_log2 n d"
  let ?e = "?k - 52"
  define mm where "mm = (if 0 \<le> ?e then round_half_even n (d * 2 ^ nat ?e)
                         else round_half_even (n * 2 ^ nat (- ?e)) d)"
  have e: "max (?k - 52) (- 1074) = ?e"
    using assms(3) by simp
  have small: "\<not> 971 \<le> ?e"
    using assms(4) by simp
  have fp: "fl_pos n d = normal mm ?e"
    unfolding fl_pos_def Let_def e mm_def using small by simp
  have r: "\<bar>real mm - real n / real d * 2 powi (- ?e)\<bar> \<le> 1 / 2"
  proof (cases "0 \<le> ?e")
    case True
    then have p: "(2 :: real) powi (- ?e) = inverse (2 ^ nat ?e)"
      by (simp add: power_int_def power_one_over inverse_eq_divide)
    have eq: "real n / real (d * 2 ^ nat ?e) = real n / real d * 2 powi (- ?e)"
      unfolding p by (simp add: field_simps)
    have "mm = round_half_even n (d * 2 ^ nat ?e)"
      using True by (simp add: mm_def)
    then have "\<bar>real mm - real n / real (d * 2 ^ nat ?e)\<bar> \<le> 1 / 2"
      using round_half_even_bound [of "d * 2 ^ nat ?e" n] assms(2) by simp
    then show ?thesis unfolding eq .
  next
    case False
    then have p: "(2 :: real) powi (- ?e) = 2 ^ nat (- ?e)"
      by (simp add: power_int_def)
    have eq: "real (n * 2 ^ nat (- ?e)) / real d = real n / real d * 2 powi (- ?e)"
      unfolding p by simp
    have "mm = round_half_even (n * 2 ^ nat (- ?e)) d"
      using False by (simp add: mm_def)
    then have "\<bar>real mm - real (n * 2 ^ nat (- ?e)) / real d\<bar> \<le> 1 / 2"
      using round_half_even_bound [of d "n * 2 ^ nat (- ?e)"] assms(2) by (simp only:)
    then show ?thesis unfolding eq .
  qed
  from normal_real [of mm ?e] obtain m' e' where
    n: "normal mm ?e = Fin m' e'" "0 \<le> m'" "of_int m' * 2 powi e' = real mm * 2 powi ?e"
    by blast
  have inv: "(2 :: real) powi (- ?e) * 2 powi ?e = 1"
    by (simp only: powi2_add) simp
  have "\<bar>real mm * 2 powi ?e - real n / real d\<bar> =
        \<bar>(real mm - real n / real d * 2 powi (- ?e)) * 2 powi ?e\<bar>"
    using inv by (simp add: algebra_simps)
  also have "\<dots> = \<bar>real mm - real n / real d * 2 powi (- ?e)\<bar> * 2 powi ?e"
    by (simp add: abs_mult)
  also have "\<dots> \<le> 1 / 2 * 2 powi ?e"
    using r by (intro mult_right_mono) simp_all
  also have "1 / 2 * (2 :: real) powi ?e = 2 powi (- 1) * 2 powi ?e"
    by simp
  also have "\<dots> = 2 powi (?k - 53)"
    by (simp only: powi2_add) simp
  finally show ?thesis
    using fp n by (intro exI [of _ m'] exI [of _ e']) simp
qed

lemma normal_shift: "0 < a \<Longrightarrow> normal (a * 2 ^ j) e = normal a (e + int j)"
proof (induction j arbitrary: e)
  case 0
  then show ?case by simp
next
  case (Suc j)
  have "normal (a * 2 ^ Suc j) e = normal (a * 2 ^ Suc j div 2) (e + 1)"
    using Suc(2) by (subst normal.simps) simp
  also have "a * 2 ^ Suc j div 2 = a * 2 ^ j" by simp
  also have "normal (a * 2 ^ j) (e + 1) = normal a (e + 1 + int j)"
    using Suc by simp
  finally show ?case by (simp add: add.assoc)
qed

lemma round_half_even_one: "round_half_even a (Suc 0) = a"
  by (simp add: round_half_even_def)

lemma powi2_less_imp: "(2 :: real) powi a < 2 powi b \<Longrightarrow> a < b"
  using power_int_increasing [of b a "2 :: real"] by (cases "a < b") simp_all

lemma num_int:
  assumes "0 \<le> i" and "i < 2 ^ 53"
  shows "\<exists>m e. num i = Fin m e \<and> 0 \<le> m \<and> 0 \<le> e \<and> m * 2 ^ nat e = i"
proof (cases "i = 0")
  case True
  then show ?thesis by (simp add: num_def fl_def)
next
  case False
  define n where "n = nat i"
  with False assms have n: "0 < n" "int n = i" "n < 2 ^ 53"
    by (simp_all add: nat_less_iff)
  let ?k = "floor_log2 n 1"
  let ?e = "?k - 52"
  from floor_log2_bounds [OF n(1), of 1]
  have b: "2 powi ?k \<le> real n" "real n < 2 powi (?k + 1)"
    by simp_all
  have "(2 :: real) powi 0 \<le> real n" using n(1) by simp
  from this b(2) have "(2 :: real) powi 0 < 2 powi (?k + 1)" by (rule le_less_trans)
  then have k0: "0 \<le> ?k" using powi2_less_imp [of 0 "?k + 1"] by simp
  have "real n < real (2 ^ 53)" using n(3) by (simp only: of_nat_less_iff)
  then have "real n < 2 powi 53" by simp
  with b(1) have "(2 :: real) powi ?k < 2 powi 53" by (rule le_less_trans)
  then have k1: "?k < 53" by (rule powi2_less_imp)
  have e: "max (?k - 52) (- 1074) = ?e" using k0 by simp
  have mm: "(if 0 \<le> ?e then round_half_even n (1 * 2 ^ nat ?e)
             else round_half_even (n * 2 ^ nat (- ?e)) 1) = n * 2 ^ nat (- ?e)"
  proof (cases "0 \<le> ?e")
    case True
    with k1 have "?e = 0" by simp
    then show ?thesis by (simp add: round_half_even_one)
  next
    case False
    then show ?thesis by (simp add: round_half_even_one)
  qed
  have small: "\<not> 971 \<le> ?e" using k1 by simp
  have "fl_pos n 1 = normal (n * 2 ^ nat (- ?e)) ?e"
    unfolding fl_pos_def Let_def e mm using small by simp
  also have "\<dots> = normal n (?e + int (nat (- ?e)))"
    using n(1) by (rule normal_shift)
  also have "?e + int (nat (- ?e)) = 0" using k1 by simp
  finally have f: "fl_pos n 1 = normal n 0" .
  from normal_int [OF n(1), of 0] obtain m' e' where
    r: "normal n 0 = Fin (int m') e'" "0 \<le> e'" "m' * 2 ^ nat e' = n"
    by auto
  have "int m' * 2 ^ nat e' = int (m' * 2 ^ nat e')" by simp
  also have "\<dots> = i" using r(3) n(2) by simp
  finally have "int m' * 2 ^ nat e' = i" .
  moreover have "num i = Fin (int m') e'"
    using False assms(1) f r(1) by (simp add: num_def fl_def n_def)
  ultimately show ?thesis using r(2) by (intro exI [of _ "int m'"] exI [of _ e']) simp
qed

lemma num_Fin:
  assumes "0 \<le> i" and "i < 2 ^ 53"
  obtains m e where "num i = Fin m e" and "numer m e = i" and "denom e = 1" and "0 \<le> e"
    and "0 \<le> m"
proof -
  from num_int [OF assms] obtain m e where
    "num i = Fin m e" "0 \<le> m" "0 \<le> e" "m * 2 ^ nat e = i"
    by blast
  then show thesis
    by (intro that [of m e]) (simp_all add: numer_def denom_def)
qed

lemma jmul_num:
  assumes "0 \<le> a" "a < 2 ^ 53" "0 \<le> b" "b < 2 ^ 53"
  shows "jmul (num a) (num b) = num (a * b)"
proof -
  from assms(1,2) obtain m e where a: "num a = Fin m e" "numer m e = a" "denom e = 1"
    by (rule num_Fin)
  from assms(3,4) obtain m' e' where b: "num b = Fin m' e'" "numer m' e' = b" "denom e' = 1"
    by (rule num_Fin)
  show ?thesis
    unfolding a(1) b(1) jmul.simps a(2,3) b(2,3) by (simp add: num_def)
qed

lemma jadd_num:
  assumes "0 \<le> a" "a < 2 ^ 53" "0 \<le> b" "b < 2 ^ 53"
  shows "jadd (num a) (num b) = num (a + b)"
proof -
  from assms(1,2) obtain m e where a: "num a = Fin m e" "numer m e = a" "denom e = 1"
    by (rule num_Fin)
  from assms(3,4) obtain m' e' where b: "num b = Fin m' e'" "numer m' e' = b" "denom e' = 1"
    by (rule num_Fin)
  show ?thesis
    unfolding a(1) b(1) jadd.simps a(2,3) b(2,3) by (simp add: num_def)
qed

lemma index_of_num:
  assumes "0 \<le> i" and "i < 2 ^ 53"
  shows "index_of (num i) = Some (nat i)"
proof -
  from num_int [OF assms] obtain m e where
    n: "num i = Fin m e" "0 \<le> m" "0 \<le> e" "m * 2 ^ nat e = i"
    by blast
  have "nat m * 2 ^ nat e = nat (m * 2 ^ nat e)"
    using n(2) by (simp add: nat_mult_distrib nat_power_eq)
  then show ?thesis using n by simp
qed

lemma jfloor_Fin: "jfloor (Fin m e) = num \<lfloor>real_of_int m * 2 powi e\<rfloor>"
proof -
  have "\<lfloor>real_of_int m * 2 powi e\<rfloor> = \<lfloor>real_of_int (numer m e) / real_of_int (int (denom e))\<rfloor>"
    using numer_denom [of m e] by simp
  also have "\<dots> = numer m e div int (denom e)"
    by (rule floor_divide_of_int_eq)
  finally show ?thesis by (simp add: num_def)
qed


lemma two_roundings:
  fixes T P q mw eps :: real
  assumes "0 < q" and "0 < mw" and "0 \<le> eps" and "eps \<le> 1"
    and "\<bar>T - q\<bar> \<le> q * eps" and "\<bar>P - T * mw\<bar> \<le> T * mw * eps"
  shows "\<bar>P - q * mw\<bar> \<le> 3 * (q * mw) * eps"
proof -
  have "T \<le> q + q * eps" using assms(5) by linarith
  also have "\<dots> \<le> q + q * 1" using assms(1,4) by (intro add_left_mono mult_left_mono) simp_all
  finally have T: "T \<le> 2 * q" by simp
  have "0 \<le> mw * eps" using assms(2,3) by simp
  with T have "T * (mw * eps) \<le> 2 * q * (mw * eps)" by (rule mult_right_mono)
  then have a: "\<bar>P - T * mw\<bar> \<le> 2 * (q * mw) * eps" using assms(6) by (simp add: mult_ac)
  have "T * mw - q * mw = (T - q) * mw" by (simp add: algebra_simps)
  then have "\<bar>T * mw - q * mw\<bar> = \<bar>T - q\<bar> * \<bar>mw\<bar>" by (simp only: abs_mult)
  also have "\<dots> = \<bar>T - q\<bar> * mw" using assms(2) by simp
  also have "\<dots> \<le> q * eps * mw" using assms(5,2) by (intro mult_right_mono) simp_all
  finally have b: "\<bar>T * mw - q * mw\<bar> \<le> (q * mw) * eps" by (simp add: mult_ac)
  have "\<bar>P - q * mw\<bar> \<le> \<bar>P - T * mw\<bar> + \<bar>T * mw - q * mw\<bar>" by linarith
  with a b show ?thesis by linarith
qed

lemma half_bounds:
  fixes T q e :: real
  assumes "0 < q" and "e \<le> 1 / 2" and "0 \<le> e" and "\<bar>T - q\<bar> \<le> q * e"
  shows "q / 2 \<le> T" and "T \<le> 2 * q"
proof -
  have "q * e \<le> q * (1 / 2)"
    using assms(1,2) by (intro mult_left_mono) simp_all
  then have h: "q * e \<le> q / 2" by simp
  from h assms(4) show "q / 2 \<le> T" by linarith
  from h assms(4,1) show "T \<le> 2 * q" by linarith
qed

lemma floor_near:
  fixes P :: real
  assumes "0 < W" and "\<bar>real W * P - real Q\<bar> < 1" and "0 \<le> P"
  shows "nat \<lfloor>P\<rfloor> = Q div W \<or> (W dvd Q \<and> nat \<lfloor>P\<rfloor> + 1 = Q div W)"
proof -
  let ?f = "Q div W" and ?r = "Q mod W"
  have Q: "real Q = real W * real ?f + real ?r"
    by (metis of_nat_add of_nat_mult mult_div_mod_eq)
  have W: "0 < real W" using assms(1) by simp
  have r: "real ?r \<le> real W - 1"
    using assms(1) by (metis Suc_leI mod_less_divisor of_nat_Suc of_nat_le_iff le_diff_eq add.commute)
  show ?thesis
  proof (cases "?r = 0")
    case False
    then have "1 \<le> real ?r" by simp
    with assms(2) Q have "real W * real ?f < real W * P" by linarith
    then have lo: "real ?f < P" using W by simp
    from assms(2) Q r have "real W * P < real W * (real ?f + 1)" by (simp add: algebra_simps)
    then have hi: "P < real ?f + 1" using W by simp
    from lo hi have "\<lfloor>P\<rfloor> = int ?f" by (intro floor_unique) simp_all
    then show ?thesis by simp
  next
    case True
    then have d: "W dvd Q" by (simp add: dvd_eq_mod_eq_0)
    from True Q have Q': "real Q = real W * real ?f" by simp
    have one: "1 \<le> real W" using assms(1) by simp
    from assms(2) Q' have "real W * P < real W * real ?f + 1" by linarith
    also have "\<dots> \<le> real W * real ?f + real W" using one by simp
    finally have "real W * P < real W * (real ?f + 1)" by (simp add: algebra_simps)
    then have hi: "P < real ?f + 1" using W by simp
    from assms(2) Q' have "real W * real ?f - real W < real W * P" using one by linarith
    then have "real W * (real ?f - 1) < real W * P" by (simp add: algebra_simps)
    then have lo: "real ?f - 1 < P" using W by simp
    show ?thesis
    proof (cases "real ?f \<le> P")
      case True
      with hi have "\<lfloor>P\<rfloor> = int ?f" by (intro floor_unique) simp_all
      then show ?thesis by simp
    next
      case False
      with assms(3) have "0 < ?f" by (cases "?f") auto
      from False lo have "\<lfloor>P\<rfloor> = int ?f - 1" by (intro floor_unique) simp_all
      with \<open>0 < ?f\<close> have "nat \<lfloor>P\<rfloor> + 1 = ?f" by simp
      with d show ?thesis by simp
    qed
  qed
qed


lemma fl_pos_relative:
  assumes "0 < n" and "0 < d"
    and "2 powi (- 1000) \<le> real n / real d" and "real n / real d < 2 powi 1000"
  shows "\<exists>m e. fl_pos n d = Fin m e \<and> 0 < m \<and>
           \<bar>of_int m * 2 powi e - real n / real d\<bar> \<le> real n / real d * 2 powi (- 53)"
proof -
  let ?k = "floor_log2 n d"
  let ?q = "real n / real d"
  have d: "0 < real d" using assms(2) by simp
  have q: "0 < ?q" using assms(1,2) by simp
  from floor_log2_bounds [OF assms(1,2)]
  have lo: "2 powi ?k \<le> ?q" and hi: "?q < 2 powi (?k + 1)"
    using d by (simp_all add: field_simps)
  from lo assms(4) have "(2 :: real) powi ?k < 2 powi 1000" by (rule le_less_trans)
  then have k1: "?k < 1000" by (rule powi2_less_imp)
  from assms(3) hi have "(2 :: real) powi (- 1000) < 2 powi (?k + 1)" by (rule le_less_trans)
  then have k0: "- 1000 < ?k + 1" by (rule powi2_less_imp)
  from k0 k1 have "- 1022 \<le> ?k" "?k < 1023" by simp_all
  from fl_pos_error [OF assms(1,2) this] obtain m e where
    f: "fl_pos n d = Fin m e" "0 \<le> m" "\<bar>of_int m * 2 powi e - ?q\<bar> \<le> 2 powi (?k - 53)"
    by blast
  have "(2 :: real) powi (?k - 53) = 2 powi ?k * 2 powi (- 53)"
    by (simp only: powi2_add) simp
  also have "\<dots> \<le> ?q * 2 powi (- 53)"
    using lo by (intro mult_right_mono) simp_all
  finally have err: "\<bar>of_int m * 2 powi e - ?q\<bar> \<le> ?q * 2 powi (- 53)"
    using f(3) by simp
  have "?q * 2 powi (- 53) < ?q * 1"
    using q by (intro mult_strict_left_mono) (simp_all add: power_int_minus)
  with err have "0 < real_of_int m * 2 powi e" by linarith
  with f(2) have "0 < m" by (cases "m = 0") simp_all
  with f(1) err show ?thesis by blast
qed

lemma remap_cell:
  assumes "x < W" and "0 < mw" and "W < 2 ^ 24" and "mw < 2 ^ 24"
  shows "\<exists>c. remap x W mw = num (int c) \<and> c < mw \<and>
           (c = x * mw div W \<or> (W dvd x * mw \<and> c + 1 = x * mw div W))"
proof -
  have W53: "int W < 2 ^ 53" and mw53: "int mw < 2 ^ 53" and x53: "int x < 2 ^ 53"
    using assms by simp_all
  have nonneg: "0 \<le> int n" for n by simp
  from nonneg W53 obtain b eb where
    W: "num (int W) = Fin b eb" "numer b eb = int W" "denom eb = 1" "0 \<le> eb" "0 \<le> b"
    by (rule num_Fin)
  from nonneg mw53 obtain c ec where
    mw: "num (int mw) = Fin c ec" "numer c ec = int mw" "denom ec = 1"
    by (rule num_Fin)
  have "b \<noteq> 0"
  proof
    assume "b = 0"
    then have "numer b eb = 0" by (simp add: numer_def)
    with W(2) assms(1) show False by simp
  qed
  with W(5) have b: "0 < b" by simp
  show ?thesis
  proof (cases "x = 0")
    case True
    have "jdiv (num 0) (Fin b eb) = Fin 0 0"
      using b by (simp add: num_def fl_def numer_def)
    then have "remap 0 W mw = Fin 0 0"
      by (simp add: remap_def W(1) mw(1) fl_def numer_def)
    then show ?thesis using True assms(2) by (intro exI [of _ 0]) (simp add: num_def fl_def)
  next
    case False
    then have x: "0 < x" by simp
    from nonneg x53 obtain a ea where
      xa: "num (int x) = Fin a ea" "numer a ea = int x" "denom ea = 1"
      by (rule num_Fin)
    let ?q = "real x / real W"
    have Wr: "0 < real W" "real W < 2 ^ 24" and mwr: "1 \<le> real mw" "real mw < 2 ^ 24"
      and xr: "1 \<le> real x" "real x < real W"
      using assms x by simp_all
    have q: "0 < ?q" "?q < 1" using xr Wr by simp_all
    have qlo: "2 powi (- 24) \<le> ?q"
    proof -
      have "2 powi (- 24) * real W \<le> 1" using Wr by (simp add: power_int_minus field_simps)
      also have "\<dots> \<le> real x" by (rule xr)
      finally show ?thesis using Wr by (simp add: field_simps)
    qed
    have "(2 :: real) powi (- 1000) \<le> 2 powi (- 24)"
      by (intro power_int_increasing) simp_all
    from this qlo have q1: "2 powi (- 1000) \<le> ?q" by (rule order_trans)
    have "(2 :: real) powi 0 \<le> 2 powi 1000"
      by (intro power_int_increasing) simp_all
    then have "(1 :: real) \<le> 2 powi 1000" by (simp only: power_int_0_right)
    with q(2) have q2: "?q < 2 powi 1000" by (rule less_le_trans)
    have div: "jdiv (num (int x)) (num (int W)) = fl_pos x W"
      unfolding xa(1) W(1) jdiv.simps xa(2,3) W(2,3) using b x by (simp add: fl_def)
    have "0 < W" using assms(1) by simp
    from fl_pos_relative [OF x this q1 q2] obtain tm te where
      t: "fl_pos x W = Fin tm te" "0 < tm"
        "\<bar>of_int tm * 2 powi te - ?q\<bar> \<le> ?q * 2 powi (- 53)"
      by blast
    let ?T = "real_of_int tm * 2 powi te"
    let ?N = "nat (numer tm te * int mw)" and ?D = "denom te"
    have nt: "0 < numer tm te" using t(2) by (simp add: numer_def)
    then have N: "0 < ?N" using assms(2) by simp
    have D: "0 < ?D" by (simp add: denom_def)
    have mul: "jmul (Fin tm te) (num (int mw)) = fl_pos ?N ?D"
      unfolding mw(1) jmul.simps mw(2,3) using nt assms(2) by (simp add: fl_def)
    have "real ?N = real_of_int (numer tm te) * real mw"
      using nt by simp
    then have "real ?N / real ?D = real_of_int (numer tm te) / real ?D * real mw"
      by simp
    then have ratio: "real ?N / real ?D = ?T * real mw"
      by (simp only: numer_denom)
    have eps: "(2 :: real) powi (- 53) \<le> 1 / 2"
      by (simp add: power_int_minus)
    have Tlo: "?q / 2 \<le> ?T" and Thi: "?T \<le> 2 * ?q"
      using half_bounds [OF q(1) eps _ t(3)] by simp_all
    have Tpos: "0 < ?T" using t(2) by simp
    have "2 * ?q \<le> 2 * 1" using q(2) by (intro mult_left_mono) simp_all
    with Thi have T2: "?T \<le> 2" by simp
    have p1: "2 powi (- 1000) \<le> ?T * real mw"
    proof -
      have "(2 :: real) powi (- 1000) \<le> 2 powi (- 25)"
        by (intro power_int_increasing) simp_all
      also have "\<dots> = 2 powi (- 24) / 2" by (simp add: power_int_minus)
      also have "\<dots> \<le> ?q / 2" using qlo by (rule divide_right_mono) simp
      also have "\<dots> \<le> ?T" by (rule Tlo)
      also have "\<dots> = ?T * 1" by simp
      also have "\<dots> \<le> ?T * real mw"
        using mwr(1) Tpos by (intro mult_left_mono) simp_all
      finally show ?thesis .
    qed
    have p2: "?T * real mw < 2 powi 1000"
    proof -
      have "?T * real mw \<le> 2 * real mw" using T2 mwr(1) by (intro mult_right_mono) simp_all
      also have "\<dots> < 2 * 2 ^ 24" using mwr(2) by simp
      also have "\<dots> = 2 powi 25" by simp
      also have "\<dots> \<le> 2 powi 1000" by (intro power_int_increasing) simp_all
      finally show ?thesis .
    qed
    have p1': "2 powi (- 1000) \<le> real ?N / real ?D" and p2': "real ?N / real ?D < 2 powi 1000"
      unfolding ratio by (rule p1, rule p2)
    from fl_pos_relative [OF N D p1' p2'] obtain pm pe where
      p: "fl_pos ?N ?D = Fin pm pe" "0 < pm"
        "\<bar>of_int pm * 2 powi pe - real ?N / real ?D\<bar> \<le> real ?N / real ?D * 2 powi (- 53)"
      by blast
    from p(3) have p3:
      "\<bar>of_int pm * 2 powi pe - ?T * real mw\<bar> \<le> ?T * real mw * 2 powi (- 53)"
      unfolding ratio .
    let ?P = "real_of_int pm * 2 powi pe"
    have Ppos: "0 \<le> ?P" using p(2) by simp
    have "0 < real mw" using mwr(1) by linarith
    from two_roundings [OF q(1) this _ _ t(3) p3]
    have near: "\<bar>?P - ?q * real mw\<bar> \<le> 3 * (?q * real mw) * 2 powi (- 53)"
      using eps by simp
    have "real W * ?P - real (x * mw) = real W * (?P - ?q * real mw)"
      using Wr(1) by (simp add: algebra_simps)
    then have "\<bar>real W * ?P - real (x * mw)\<bar> = real W * \<bar>?P - ?q * real mw\<bar>"
      using Wr(1) by (simp add: abs_mult)
    also have "\<dots> \<le> real W * (3 * (?q * real mw) * 2 powi (- 53))"
      using near Wr(1) by (intro mult_left_mono) simp_all
    also have "\<dots> = 3 * (real x * real mw) * 2 powi (- 53)"
      using Wr(1) by simp
    also have "\<dots> < 1"
    proof -
      have "real x * real mw \<le> 2 ^ 24 * 2 ^ 24"
        using xr Wr mwr by (intro mult_mono) linarith+
      then have "3 * (real x * real mw) * 2 powi (- 53) \<le> 3 * (2 ^ 24 * 2 ^ 24) * 2 powi (- 53)"
        by (intro mult_right_mono mult_left_mono) simp_all
      also have "\<dots> < 1" by (simp add: power_int_minus)
      finally show ?thesis .
    qed
    finally have "\<bar>real W * ?P - real (x * mw)\<bar> < 1" .
    from floor_near [OF _ this Ppos] assms(1)
    have cell: "nat \<lfloor>?P\<rfloor> = x * mw div W \<or> (W dvd x * mw \<and> nat \<lfloor>?P\<rfloor> + 1 = x * mw div W)"
      by simp
    have "x * mw < mw * W" using assms(1,2) by simp
    then have "x * mw div W < mw" by (rule less_mult_imp_div_less)
    with cell have lt: "nat \<lfloor>?P\<rfloor> < mw" by auto
    have "remap x W mw = jfloor (Fin pm pe)"
      by (simp add: remap_def div t(1) mul p(1) del: jfloor.simps)
    also have "\<dots> = num \<lfloor>?P\<rfloor>"
      by (rule jfloor_Fin)
    also have "\<lfloor>?P\<rfloor> = int (nat \<lfloor>?P\<rfloor>)"
      using Ppos by simp
    finally have "remap x W mw = num (int (nat \<lfloor>?P\<rfloor>))" .
    with cell lt show ?thesis by blast
  qed
qed

section \<open>Region extraction\<close>

lemma alpha_pass:
  fixes d :: "u8 list"
  assumes "length d = 4 * w * h" and "x < w" and "y < h" and "c < 4"
  shows "fold (\<lambda>(a, b) d. if cond a b then d[(b * w + a) * 4 + 3 := 0] else d) (pixels w h) d
           ! ((y * w + x) * 4 + c) =
         (if c = 3 \<and> cond x y then 0 else d ! ((y * w + x) * 4 + c))"
proof -
  let ?step = "\<lambda>(a, b) d. if cond a b then d[(b * w + a) * 4 + 3 := (0 :: u8)] else d"
  let ?key = "\<lambda>(a, b). b * w + a"
  let ?j = "(y * w + x) * 4 + c"
  have "fold ?step (pixels w h) d ! ?j = (\<lambda>old. if c = 3 \<and> cond x y then 0 else old) (d ! ?j)"
  proof (rule fold_hit [where key = ?key and p = "(x, y)"])
    show "length (?step q d) = length d" for q d
      by (cases q) simp
    show "?step q d ! ?j = d ! ?j"
      if "q \<in> set (pixels w h)" and "?key q \<noteq> ?key (x, y)" for q d
    proof -
      obtain a b where q: "q = (a, b)" by (cases q)
      with that(2) have "b * w + a \<noteq> y * w + x" by simp
      with assms(4) have "(b * w + a) * 4 + 3 \<noteq> ?j" by arith
      then show ?thesis by (simp add: q del: distrib_right_numeral)
    qed
    show "?step (x, y) d ! ?j = (if c = 3 \<and> cond x y then 0 else d ! ?j)"
      if "?j < length d" for d
      using that assms(4) by (auto simp: nth_list_update simp del: distrib_right_numeral)
    show "q = (x, y)" if "q \<in> set (pixels w h)" and "?key q = ?key (x, y)" for q
      using that assms by (intro pixels_key_unique) simp_all
    show "(x, y) \<in> set (pixels w h)"
      using assms by (simp add: set_pixels)
    show "distinct (map ?key (pixels w h))"
      by (simp add: pixels_keys)
    show "?j < length d"
      using pixel_index_bound [OF assms(2-4)] assms(1) by simp
  qed
  then show ?thesis .
qed


lemma remove_region_channel:
  assumes "wf_image img" and "x < width img" and "y < height img" and "c < 4"
  shows "channel (remove_region maskData img) x y c =
           (if c = 3 \<and> exceeds (mask_sample maskData (width img) (height img) x y) 200 then 0
            else channel img x y c)"
  using alpha_pass [of "data img" "width img" "height img" x y c
      "\<lambda>a b. exceeds (mask_sample maskData (width img) (height img) a b) 200"] assms
  by (simp add: remove_region_def channel_def wf_image_def Let_def del: distrib_right_numeral)

lemma by4_blocks: "by4 0 (4 * n) = map (\<lambda>k. k * 4) [0..<n]"
  by (simp add: by4_def mult.commute)





lemma extractRegion_Some:
  assumes "extractRegion regions maskImages (Some img) onImageUpdate i = Some r"
    and "maskImages i = Some maskData"
  shows "ex_layer r = apply_mask (isBackgroundRegion (label (regions ! i)) maskData) maskData img"
    and "ex_base r = (if onImageUpdate then Some (remove_region maskData img) else None)"
    and "ex_type r = label (regions ! i)"
    and "ex_position r =
           \<lparr>pos_x = 0, pos_y = 0, pos_width = width img, pos_height = height img\<rparr>"
  using assms by (auto simp: extractRegion_def Let_def split: if_splits)

lemma mask_sample_cell:
  assumes "wf_image m" and "x < W" and "y < H"
    and "W < 2 ^ 24" and "H < 2 ^ 24" and "width m < 2 ^ 24" and "height m < 2 ^ 24"
  shows "\<exists>cx cy. mask_cell cx x W (width m) \<and> mask_cell cy y H (height m) \<and>
           index_of (remap x W (width m)) = Some cx \<and>
           index_of (remap y H (height m)) = Some cy \<and>
           mask_sample m W H x y = Some (channel m cx cy 0)"
proof -
  let ?mw = "width m" and ?mh = "height m"
  from assms(1) have pos: "0 < ?mw" "0 < ?mh"
    by (simp_all add: wf_image_def)
  from remap_cell [OF assms(2) pos(1) assms(4,6)] obtain cx where
    cx: "remap x W ?mw = num (int cx)" "cx < ?mw"
      "cx = x * ?mw div W \<or> (W dvd x * ?mw \<and> cx + 1 = x * ?mw div W)"
    by blast
  from remap_cell [OF assms(3) pos(2) assms(5,7)] obtain cy where
    cy: "remap y H ?mh = num (int cy)" "cy < ?mh"
      "cy = y * ?mh div H \<or> (H dvd y * ?mh \<and> cy + 1 = y * ?mh div H)"
    by blast
  have small: "int cx < 2 ^ 53" "int cy < 2 ^ 53" "int ?mw < 2 ^ 53"
    using cx(2) cy(2) assms(6,7) by simp_all
  have "cy * ?mw < 2 ^ 24 * 2 ^ 24"
    using cy(2) assms(6,7) by (intro mult_strict_mono) simp_all
  then have row: "int cy * int ?mw < 2 ^ 53"
    by (simp flip: of_nat_mult)
  have "cy * ?mw + cx < 2 ^ 24 * 2 ^ 24 + 2 ^ 24"
    using \<open>cy * ?mw < 2 ^ 24 * 2 ^ 24\<close> cx(2) assms(6) by simp
  then have cell: "int cy * int ?mw + int cx < 2 ^ 53"
    by (simp flip: of_nat_mult of_nat_add)
  have "(cy * ?mw + cx) * 4 < (2 ^ 24 * 2 ^ 24 + 2 ^ 24) * 4"
    using \<open>cy * ?mw + cx < 2 ^ 24 * 2 ^ 24 + 2 ^ 24\<close> by simp
  then have idx: "(int cy * int ?mw + int cx) * 4 < 2 ^ 53"
    by (simp flip: of_nat_mult of_nat_add)
  have "jmul (jadd (jmul (num (int cy)) (num (int ?mw))) (num (int cx))) (num 4) =
        num ((int cy * int ?mw + int cx) * 4)"
    using small row cell by (simp add: jmul_num jadd_num)
  moreover have "index_of (num ((int cy * int ?mw + int cx) * 4)) =
        Some (nat ((int cy * int ?mw + int cx) * 4))"
    using idx by (intro index_of_num) simp_all
  moreover have "nat ((int cy * int ?mw + int cx) * 4) = (cy * ?mw + cx) * 4"
    by (simp add: nat_mult_distrib nat_add_distrib)
  moreover have "byte_at (data m) ((cy * ?mw + cx) * 4) = Some (channel m cx cy 0)"
    using pixel_index_bound [OF cx(2) cy(2), of 0] assms(1)
    by (simp add: byte_at_def channel_def wf_image_def del: distrib_right_numeral)
  ultimately have "mask_sample m W H x y = Some (channel m cx cy 0)"
    by (simp add: mask_sample_def cx(1) cy(1) Let_def del: distrib_right_numeral)
  moreover have "index_of (remap x W ?mw) = Some cx" "index_of (remap y H ?mh) = Some cy"
    using small by (simp_all add: cx(1) cy(1) index_of_num)
  ultimately show ?thesis
    using cx(2,3) cy(2,3) unfolding mask_cell_def by blast
qed










text \<open>
  The base-image pass, when \<open>onImageUpdate\<close> is given: the updated base has the size of the
  source; the alpha of pixel \<open>(x, y)\<close> is 0 when the red byte of the mask cell the code computes
  exceeds 200, and every other byte is the byte of the source.  The label does not enter: the
  same base results for any other list of regions.
\<close>

lemma base_update_at_computed_cell:
  assumes "extractRegion regions maskImages (Some img) True i = Some r"
    and "maskImages i = Some maskData"
    and "wf_image img" and "wf_image maskData"
    and "width img < 2 ^ 24" and "height img < 2 ^ 24"
    and "width maskData < 2 ^ 24" and "height maskData < 2 ^ 24"
    and "x < width img" and "y < height img" and "c < 4"
  shows "\<exists>base cx cy. ex_base r = Some base \<and>
           width base = width img \<and> height base = height img \<and>
           mask_cell cx x (width img) (width maskData) \<and>
           mask_cell cy y (height img) (height maskData) \<and>
           channel base x y c =
             (if c = 3 \<and> 200 < channel maskData cx cy 0 then 0 else channel img x y c) \<and>
           (i < length regions' \<longrightarrow>
              map_option ex_base (extractRegion regions' maskImages (Some img) True i) =
                Some (Some base))"
proof -
  from mask_sample_cell [OF assms(4,9,10,5,6,7,8)] obtain cx cy where
    cell: "mask_cell cx x (width img) (width maskData)"
      "mask_cell cy y (height img) (height maskData)"
    and sample: "mask_sample maskData (width img) (height img) x y = Some (channel maskData cx cy 0)"
    by blast
  have base: "ex_base r = Some (remove_region maskData img)"
    using extractRegion_Some(2) [OF assms(1,2)] by simp
  have dims: "width (remove_region maskData img) = width img"
    "height (remove_region maskData img) = height img"
    by (simp_all add: remove_region_def)
  have other: "map_option ex_base (extractRegion regions' maskImages (Some img) True i) =
      Some (Some (remove_region maskData img))" if "i < length regions'"
    using that assms(2) by (simp add: extractRegion_def Let_def)
  have "channel (remove_region maskData img) x y c =
      (if c = 3 \<and> 200 < channel maskData cx cy 0 then 0 else channel img x y c)"
    using remove_region_channel [OF assms(3,9,10,11), of maskData]
    by (simp add: sample exceeds_def)
  with base dims cell other show ?thesis
    by blast
qed

lemma wf_strip22: "wf_image strip22"
  by code_simp

lemma remap_15_22_22: "remap 15 22 22 = Fin 7 1"
  by (simp add: remap_def float_eval)

lemma upt_22:
  "[0..<22] = [0, 1, 2, 3, 4, 5, 6, 7, 8, 9, 10, 11, 12, 13, 14, 15, 16, 17, 18, 19, 20, 21]"
  by (simp add: upt_rec)

lemma remaps_22:
  "map (\<lambda>x. index_of (remap x 22 22)) [0..<22] =
     map Some [0, 1, 2, 3, 4, 5, 6, 7, 8, 9, 10, 11, 12, 13, 14, 14, 16, 17, 18, 19, 20, 21]"
  unfolding upt_22 by (simp add: remap_def float_eval)

lemma remap_0_1_1: "remap 0 (Suc 0) (Suc 0) = Fin 0 0"
  by (simp add: remap_def float_eval)

lemma sample_mask22: "mask_sample mask22 22 1 15 0 = Some 0"
proof -
  have "byte_at (data mask22) 56 = Some 0" by code_simp
  moreover have "width mask22 = 22" "height mask22 = 1" by (simp_all add: mask22_def image_of_def)
  ultimately show ?thesis
    by (simp add: mask_sample_def remap_15_22_22 remap_0_1_1 float_eval)
qed

text \<open>
  C2 fails on the code.  The image is 22 by 1 and opaque, the mask has the same size and is
  white in column 15 only.  Pixel 15 lies on a white cell, red 255, above 200; yet the updated
  base image keeps alpha 255 there.  In binary64 \<open>(15 / 22) * 22\<close> falls just below 15, so the
  code reads cell 14, which is black; the last line lists the cell read for each of the 22
  columns, and cell 15 is not among them.
\<close>

theorem base_update_misses_white_cell:
  "wf_image strip22 \<and> wf_image mask22 \<and>
   width mask22 = width strip22 \<and> height mask22 = height strip22 \<and>
   channel mask22 15 0 0 = 255 \<and>
   channel mask22 14 0 0 = 0 \<and>
   map_option (\<lambda>r. map_option (\<lambda>b. channel b 15 0 3) (ex_base r))
     (extractRegion [cup] [0 \<mapsto> mask22] (Some strip22) True 0) = Some (Some 255) \<and>
   map (\<lambda>x. index_of (remap x 22 22)) [0..<22] =
     map Some [0, 1, 2, 3, 4, 5, 6, 7, 8, 9, 10, 11, 12, 13, 14, 14, 16, 17, 18, 19, 20, 21]"
proof -
  have wf: "wf_image mask22"
    by code_simp
  have dims: "width strip22 = 22" "height strip22 = 1" "width mask22 = 22" "height mask22 = 1"
    by (simp_all add: strip22_def mask22_def image_of_def)
  have bytes: "channel mask22 15 0 0 = 255" "channel mask22 14 0 0 = 0"
    "channel strip22 15 0 3 = 255"
    by code_simp+
  have "channel (remove_region mask22 strip22) 15 0 3 = 255"
    using remove_region_channel [OF wf_strip22, of 15 0 3 mask22] sample_mask22 bytes(3)
    by (simp add: dims exceeds_def)
  then have "map_option (\<lambda>r. map_option (\<lambda>b. channel b 15 0 3) (ex_base r))
     (extractRegion [cup] [0 \<mapsto> mask22] (Some strip22) True 0) = Some (Some 255)"
    by (simp add: extractRegion_def Let_def)
  with wf wf_strip22 dims bytes
  have "wf_image strip22 \<and> wf_image mask22 \<and>
   width mask22 = width strip22 \<and> height mask22 = height strip22 \<and>
   channel mask22 15 0 0 = 255 \<and>
   channel mask22 14 0 0 = 0 \<and>
   map_option (\<lambda>r. map_option (\<lambda>b. channel b 15 0 3) (ex_base r))
     (extractRegion [cup] [0 \<mapsto> mask22] (Some strip22) True 0) = Some (Some 255)"
    by simp
  with remaps_22 show ?thesis
    by blast
qed



section \<open>Lasso and brush\<close>

lemma by4_pass:
  fixes d :: "u8 list"
  assumes "length d = 4 * n" and "k < n" and "c < 4"
  shows "fold (\<lambda>i d. if cond i then d[i + 3 := 0] else d) (by4 0 (length d)) d ! (k * 4 + c) =
         (if c = 3 \<and> cond (k * 4) then 0 else d ! (k * 4 + c))"
proof -
  let ?step = "\<lambda>i d. if cond i then d[i + 3 := (0 :: u8)] else d"
  let ?key = "\<lambda>i :: nat. i div 4"
  let ?j = "k * 4 + c"
  let ?ps = "map (\<lambda>k. k * 4) [0..<n]"
  have "fold ?step ?ps d ! ?j = (\<lambda>old. if c = 3 \<and> cond (k * 4) then 0 else old) (d ! ?j)"
  proof (rule fold_hit [where key = ?key and p = "k * 4"])
    show "length (?step q d) = length d" for q d
      by simp
    show "?step (k * 4) d ! ?j = (if c = 3 \<and> cond (k * 4) then 0 else d ! ?j)"
      if "?j < length d" for d
      using that assms(3) by (auto simp: nth_list_update)
    show "k * 4 \<in> set ?ps"
      using assms(2) by simp
    show "distinct (map ?key ?ps)"
      by (simp add: comp_def)
    show "?j < length d"
      using assms by simp
    show "?step q d ! ?j = d ! ?j" if "q \<in> set ?ps" and "?key q \<noteq> ?key (k * 4)" for q d
    proof -
      from that obtain k' where "q = k' * 4" and "k' \<noteq> k" by auto
      with assms(3) have "q + 3 \<noteq> ?j" by arith
      then show ?thesis by simp
    qed
    show "q = k * 4" if "q \<in> set ?ps" and "?key q = ?key (k * 4)" for q
      using that by auto
  qed
  then show ?thesis
    by (simp add: assms(1) by4_blocks)
qed

lemma keep_inside_channel:
  assumes "wf_image img" and "x < width img" and "y < height img" and "c < 4"
  shows "channel (keep_inside maskData img) x y c =
           (if c = 3 \<and> byte_at (data maskData) ((y * width img + x) * 4) = Some 0 then 0
            else channel img x y c)"
proof -
  from assms have n: "length (data img) = 4 * (width img * height img)"
    and k: "y * width img + x < width img * height img"
    using pixel_index_bound [of x "width img" y "height img" 0]
    by (simp_all add: wf_image_def mult.assoc mult.commute)
  from by4_pass [OF n k assms(4), of "\<lambda>i. byte_at (data maskData) i = Some 0"]
  show ?thesis
    by (simp add: keep_inside_def channel_def del: distrib_right_numeral)
qed

lemma remove_inside_channel:
  assumes "wf_image img" and "x < width img" and "y < height img" and "c < 4"
  shows "channel (remove_inside maskData img) x y c =
           (if c = 3 \<and> exceeds (byte_at (data maskData) ((y * width img + x) * 4)) 0 then 0
            else channel img x y c)"
proof -
  from assms have n: "length (data img) = 4 * (width img * height img)"
    and k: "y * width img + x < width img * height img"
    using pixel_index_bound [of x "width img" y "height img" 0]
    by (simp_all add: wf_image_def mult.assoc mult.commute)
  from by4_pass [OF n k assms(4), of "\<lambda>i. exceeds (byte_at (data maskData) i) 0"]
  show ?thesis
    by (simp add: remove_inside_def channel_def del: distrib_right_numeral)
qed

lemma red_byte_at:
  assumes "wf_image m" and "x < width m" and "y < height m"
  shows "byte_at (data m) ((y * width m + x) * 4) = Some (channel m x y 0)"
  using pixel_index_bound [OF assms(2,3), of 0] assms(1)
  by (simp add: byte_at_def channel_def wf_image_def del: distrib_right_numeral)

text \<open>
  C3.  For a fully opaque source and a lasso mask of the size of the source whose red channel
  is 255 inside the polygon and 0 outside, the extracted layer has alpha 255 exactly inside and
  0 elsewhere, and the updated base image has alpha 0 exactly inside, alpha 255 elsewhere, and
  the red, green and blue bytes of the source everywhere.  The example that follows is the
  100 by 100 red image with the lasso around its top-left 50 by 50 quadrant.
\<close>

theorem lasso_extraction_splits_at_polygon:
  assumes "extractLassoSelection fill stage_width stage_height (Some points) (Some img) True =
             Some r"
    and "wf_image img"
    and "\<forall>x < width img. \<forall>y < height img. channel img x y 3 = 255"
    and "wf_image (lasso_mask fill stage_width stage_height points img)"
    and "width (lasso_mask fill stage_width stage_height points img) = width img"
    and "height (lasso_mask fill stage_width stage_height points img) = height img"
    and "\<forall>x < width img. \<forall>y < height img.
           channel (lasso_mask fill stage_width stage_height points img) x y 0 =
             (if inside x y then 255 else 0)"
    and "x < width img" and "y < height img"
  shows "channel (ex_layer r) x y 3 = (if inside x y then 255 else 0) \<and>
         (\<exists>base. ex_base r = Some base \<and>
            channel base x y 3 = (if inside x y then 0 else 255) \<and>
            channel base x y 0 = channel img x y 0 \<and>
            channel base x y 1 = channel img x y 1 \<and>
            channel base x y 2 = channel img x y 2)"
proof -
  let ?m = "lasso_mask fill stage_width stage_height points img"
  from assms(1) have layer: "ex_layer r = keep_inside ?m img"
    and base: "ex_base r = Some (remove_inside ?m img)"
    by (auto simp: extractLassoSelection_def Let_def)
  have red: "byte_at (data ?m) ((y * width img + x) * 4) = Some (if inside x y then 255 else 0)"
    using red_byte_at [OF assms(4), of x y] assms(5-9) by simp
  have alpha: "channel img x y 3 = 255"
    using assms(3,8,9) by simp
  have "channel (keep_inside ?m img) x y 3 = (if inside x y then 255 else 0)"
    using keep_inside_channel [OF assms(2,8,9), of 3 ?m] red alpha by simp
  moreover have "channel (remove_inside ?m img) x y c =
      (if c = 3 then (if inside x y then 0 else 255) else channel img x y c)" if "c < 4" for c
    using remove_inside_channel [OF assms(2,8,9) that, of ?m] red alpha
    by (simp add: exceeds_def)
  ultimately show ?thesis
    using layer base by simp
qed
lemma length_pixels: "length (pixels w h) = h * w"
  using arg_cong [OF pixels_keys [of w h], of length] by simp

lemma nth_pixels:
  assumes "x < w" and "y < h"
  shows "pixels w h ! (y * w + x) = (x, y)"
proof -
  from assms have k: "y * w + x < h * w"
    using pixel_index_bound [of x w y h 0] by (simp add: mult.commute)
  then have mem: "pixels w h ! (y * w + x) \<in> set (pixels w h)"
    by (simp add: length_pixels)
  have "map (\<lambda>(x, y). y * w + x) (pixels w h) ! (y * w + x) = y * w + x"
    using k by (simp add: pixels_keys)
  then have key: "(case pixels w h ! (y * w + x) of (a, b) \<Rightarrow> b * w + a) = y * w + x"
    using k by (simp add: length_pixels)
  from mem assms(1) key show ?thesis
    by (rule pixels_key_unique)
qed

lemma length_concat_blocks:
  "(\<And>b. b \<in> set bs \<Longrightarrow> length b = 4) \<Longrightarrow> length (concat bs) = 4 * length bs"
  by (induction bs) simp_all

lemma nth_concat_blocks:
  assumes "\<And>b. b \<in> set bs \<Longrightarrow> length b = 4" and "k < length bs" and "c < 4"
  shows "concat bs ! (k * 4 + c) = bs ! k ! c"
  using assms
proof (induction bs arbitrary: k)
  case Nil
  then show ?case by simp
next
  case (Cons b bs)
  then have b: "length b = 4" by simp
  show ?case
  proof (cases k)
    case 0
    with Cons.prems b show ?thesis by (simp add: nth_append)
  next
    case (Suc k')
    with Cons.prems b have "concat bs ! (k' * 4 + c) = bs ! k' ! c"
      by (intro Cons.IH) simp_all
    with Suc b show ?thesis by (simp add: nth_append)
  qed
qed

lemma wf_image_of: "0 < w \<Longrightarrow> 0 < h \<Longrightarrow> wf_image (image_of w h f)"
proof -
  have "length (concat (map (\<lambda>(x, y). case f x y of (r, g, b, a) \<Rightarrow> [r, g, b, a]) (pixels w h))) =
        4 * length (map (\<lambda>(x, y). case f x y of (r, g, b, a) \<Rightarrow> [r, g, b, a]) (pixels w h))"
    by (rule length_concat_blocks) (auto split: prod.splits)
  then show "0 < w \<Longrightarrow> 0 < h \<Longrightarrow> wf_image (image_of w h f)"
    by (simp add: wf_image_def image_of_def length_pixels mult.commute mult.left_commute)
qed

lemma channel_image_of:
  assumes "x < w" and "y < h" and "c < 4"
  shows "channel (image_of w h f) x y c = (case f x y of (r, g, b, a) \<Rightarrow> [r, g, b, a] ! c)"
proof -
  let ?bs = "map (\<lambda>(x, y). case f x y of (r, g, b, a) \<Rightarrow> [r, g, b, a]) (pixels w h)"
  from assms have k: "y * w + x < length ?bs"
    using pixel_index_bound [of x w y h 0] by (simp add: length_pixels mult.commute)
  have "concat ?bs ! ((y * w + x) * 4 + c) = ?bs ! (y * w + x) ! c"
    by (rule nth_concat_blocks [OF _ k assms(3)]) (auto split: prod.splits)
  also have "?bs ! (y * w + x) = (case f x y of (r, g, b, a) \<Rightarrow> [r, g, b, a])"
    using k nth_pixels [OF assms(1,2)] by simp
  finally show ?thesis
    by (simp add: channel_def image_of_def split: prod.splits del: distrib_right_numeral)
qed

lemma red100_facts:
  "wf_image red100" "width red100 = 100" "height red100 = 100"
  "\<forall>x < width red100. \<forall>y < height red100. channel red100 x y 3 = 255"
proof -
  show "wf_image red100"
    by (simp add: red100_def wf_image_of)
  show w: "width red100 = 100" and h: "height red100 = 100"
    by (simp_all add: red100_def image_of_def)
  show "\<forall>x < width red100. \<forall>y < height red100. channel red100 x y 3 = 255"
    unfolding w h by (simp add: red100_def channel_image_of)
qed

lemma lasso_mask_square:
  "lasso_mask square_fill 800 600 lasso_points red100 =
     image_of 100 100 (\<lambda>x y. if x < 50 \<and> y < 50 then (255, 255, 255, 255) else (0, 0, 0, 0))"
proof -
  have "native_path (getImagePosition 800 600 (imageSize 800 600 red100))
          (lasso_scale 800 600 red100) lasso_points = corners"
    by (simp add: lasso_points_def corners_def getImagePosition_def imageSize_def
        lasso_scale_def red100_facts jmin_def jsub_def float_eval)
  then show ?thesis
    by (simp add: lasso_mask_def square_fill_def red100_facts)
qed


theorem lasso_extraction_splits_at_polygon_witness:
  "wf_image red100 \<and>
   lasso_mask square_fill 800 600 lasso_points red100 =
     image_of 100 100 (\<lambda>x y. if x < 50 \<and> y < 50 then (255, 255, 255, 255) else (0, 0, 0, 0)) \<and>
   map_option (\<lambda>r. channel (ex_layer r) 49 49 3)
     (extractLassoSelection square_fill 800 600 (Some lasso_points) (Some red100) True) =
     Some 255 \<and>
   map_option (\<lambda>r. channel (ex_layer r) 50 49 3)
     (extractLassoSelection square_fill 800 600 (Some lasso_points) (Some red100) True) =
     Some 0 \<and>
   map_option (\<lambda>r. map_option (\<lambda>b. (channel b 49 49 3, channel b 50 49 3, channel b 50 49 0))
                     (ex_base r))
     (extractLassoSelection square_fill 800 600 (Some lasso_points) (Some red100) True) =
     Some (Some (0, 255, 255))"
proof -
  let ?inside = "\<lambda>x y :: nat. x < 50 \<and> y < 50"
  let ?m = "lasso_mask square_fill 800 600 lasso_points red100"
  obtain r where r:
    "extractLassoSelection square_fill 800 600 (Some lasso_points) (Some red100) True = Some r"
    by (simp add: extractLassoSelection_def Let_def)
  have m: "wf_image ?m" "width ?m = width red100" "height ?m = height red100"
    "\<forall>x < width red100. \<forall>y < height red100.
       channel ?m x y 0 = (if ?inside x y then 255 else 0)"
    unfolding lasso_mask_square red100_facts(2,3)
    by (simp_all add: wf_image_of channel_image_of) (simp_all add: image_of_def)
  have b: "(49 :: nat) < width red100" "(50 :: nat) < width red100" "(49 :: nat) < height red100"
    by (simp_all add: red100_facts)
  have red: "channel red100 50 49 0 = 255"
    by (simp add: red100_def channel_image_of)
  from lasso_extraction_splits_at_polygon [OF r red100_facts(1,4) m b(1,3)]
       lasso_extraction_splits_at_polygon [OF r red100_facts(1,4) m b(2,3)]
  show ?thesis
    using r red100_facts(1) lasso_mask_square red by auto
qed


lemma native_path_nth:
  "even (length points) \<Longrightarrow> k < length points div 2 \<Longrightarrow>
   native_path off sc points ! k =
     (jmul (jsub (points ! (2 * k)) (fst off)) (fst sc),
      jmul (jsub (points ! (2 * k + 1)) (snd off)) (snd sc))"
proof (induction off sc points arbitrary: k rule: native_path.induct)
  case (1 off sc)
  then show ?case by simp
next
  case (2 off sc px)
  then show ?case by simp
next
  case (3 off sc px py points)
  then show ?case by (cases k) simp_all
qed

text \<open>
  C5, amended.  The lasso mask is rasterised on a canvas of the native size of the image, and
  each display point \<open>(px, py)\<close> enters the path as
  \<open>((px - offsetX) * (nativeWidth / shownWidth), (py - offsetY) * (nativeHeight / shownHeight))\<close>.
  The mask snapshot of a brush or eraser step is a canvas of the size of the stage with the
  brush layer's canvas drawn at the origin, unscaled.
\<close>

theorem lasso_mask_is_native_brush_mask_is_stage_sized:
  "(extractLassoSelection fill stage_width stage_height (Some points) (Some img) u = Some r \<longrightarrow>
      ex_layer r = keep_inside (lasso_mask fill stage_width stage_height points img) img \<and>
      lasso_mask fill stage_width stage_height points img =
        fill (width img) (height img)
          (native_path
             (getImagePosition stage_width stage_height (imageSize stage_width stage_height img))
             (jdiv (num (int (width img))) (fst (imageSize stage_width stage_height img)),
              jdiv (num (int (height img))) (snd (imageSize stage_width stage_height img)))
             points)) \<and>
   (even (length points) \<and> k < length points div 2 \<longrightarrow>
      native_path off sc points ! k =
        (jmul (jsub (points ! (2 * k)) (fst off)) (fst sc),
         jmul (jsub (points ! (2 * k + 1)) (snd off)) (snd sc))) \<and>
   (handleDrawMove stage_width stage_height m imageElement brushLayer pos st = (st', Some c) \<longrightarrow>
      (m = Brush \<or> m = Eraser) \<and>
      canvas_width c = stage_width \<and> canvas_height c = stage_height \<and>
      (\<exists>b. brushLayer = Some b \<and>
           drawn c = [FillRect ''black'' 0 0 stage_width stage_height, DrawImage b 0 0]))"
proof (intro conjI impI)
  assume "extractLassoSelection fill stage_width stage_height (Some points) (Some img) u = Some r"
  then show "ex_layer r = keep_inside (lasso_mask fill stage_width stage_height points img) img"
    by (auto simp: extractLassoSelection_def Let_def)
next
  show "lasso_mask fill stage_width stage_height points img =
        fill (width img) (height img)
          (native_path
             (getImagePosition stage_width stage_height (imageSize stage_width stage_height img))
             (jdiv (num (int (width img))) (fst (imageSize stage_width stage_height img)),
              jdiv (num (int (height img))) (snd (imageSize stage_width stage_height img)))
             points)"
    by (simp add: lasso_mask_def lasso_scale_def)
next
  assume "even (length points) \<and> k < length points div 2"
  then show "native_path off sc points ! k =
        (jmul (jsub (points ! (2 * k)) (fst off)) (fst sc),
         jmul (jsub (points ! (2 * k + 1)) (snd off)) (snd sc))"
    by (simp add: native_path_nth)
next
  assume a: "handleDrawMove stage_width stage_height m imageElement brushLayer pos st =
    (st', Some c)"
  then have mode: "m = Brush \<or> m = Eraser"
    and mask: "brush_mask stage_width stage_height brushLayer = Some c"
    by (auto simp: handleDrawMove_def split: option.splits if_splits list.splits)
  from mode show "m = Brush \<or> m = Eraser" .
  from mask show "canvas_width c = stage_width" and "canvas_height c = stage_height"
    and "\<exists>b. brushLayer = Some b \<and>
           drawn c = [FillRect ''black'' 0 0 stage_width stage_height, DrawImage b 0 0]"
    by (auto simp: brush_mask_def split: option.splits)
qed

lemma drag_in_image: "isPointInImage 800 600 (new_ImageData 1600 1200) (num 400, num 300)"
  by (simp add: isPointInImage_def imageSize_def getImagePosition_def new_ImageData_def
      jmin_def jsub_def jle_def float_eval)

text \<open>
  C5, as stated, fails on the code for the brush: on the 800 by 600 stage, the snapshot of a
  brush step over a 1600 by 1200 image is 800 by 600.
\<close>

theorem brush_mask_has_stage_size:
  "snd (handleDrawMove 800 600 Brush (Some (new_ImageData 1600 1200)) (Some ''brush-layer'')
          (Some (num 400, num 300)) dragging) =
     Some \<lparr>canvas_width = 800, canvas_height = 600,
            drawn = [FillRect ''black'' 0 0 800 600, DrawImage ''brush-layer'' 0 0]\<rparr> \<and>
   width (new_ImageData 1600 1200) = 1600 \<and> height (new_ImageData 1600 1200) = 1200"
  by (simp add: handleDrawMove_def drag_in_image dragging_def brush_mask_def)
    (simp add: new_ImageData_def)


theorem lasso_mask_is_native_brush_mask_is_stage_sized_witness:
  "map_option ex_layer
     (extractLassoSelection square_fill 800 600 (Some lasso_points) (Some red100) True) =
     Some (keep_inside (lasso_mask square_fill 800 600 lasso_points red100) red100) \<and>
   even (length lasso_points) \<and> 1 < length lasso_points div 2 \<and>
   native_path (getImagePosition 800 600 (imageSize 800 600 red100))
     (lasso_scale 800 600 red100) lasso_points ! 1 = (num 50, num 0) \<and>
   map_option (\<lambda>c. (canvas_width c, canvas_height c))
     (snd (handleDrawMove 800 600 Brush (Some (new_ImageData 1600 1200)) (Some ''brush-layer'')
             (Some (num 400, num 300)) dragging)) = Some (800, 600)"
proof -
  let ?off = "getImagePosition 800 600 (imageSize 800 600 red100)"
  let ?sc = "lasso_scale 800 600 red100"
  obtain r where r:
    "extractLassoSelection square_fill 800 600 (Some lasso_points) (Some red100) True = Some r"
    by (simp add: extractLassoSelection_def Let_def)
  obtain st' c where d:
    "handleDrawMove 800 600 Brush (Some (new_ImageData 1600 1200)) (Some ''brush-layer'')
       (Some (num 400, num 300)) dragging = (st', Some c)"
    by (simp add: handleDrawMove_def drag_in_image dragging_def brush_mask_def)
  have p: "even (length lasso_points) \<and> 1 < length lasso_points div 2"
    by (simp add: lasso_points_def)
  have v: "(jmul (jsub (lasso_points ! (2 * 1)) (fst ?off)) (fst ?sc),
            jmul (jsub (lasso_points ! (2 * 1 + 1)) (snd ?off)) (snd ?sc)) = (num 50, num 0)"
    by (simp add: lasso_points_def getImagePosition_def imageSize_def lasso_scale_def
        red100_facts jmin_def jsub_def float_eval)
  from lasso_mask_is_native_brush_mask_is_stage_sized
         [of square_fill 800 600 lasso_points red100 True r 1 ?off ?sc Brush
             "Some (new_ImageData 1600 1200)" "Some ''brush-layer''" "Some (num 400, num 300)"
             dragging st' c]
       r d p v
  show ?thesis by simp
qed

end
